theory Spec2Isabelle
  imports Main "HOL-Library.Word"
begin

section \<open>The operating system as seen by writer.go\<close>

text \<open>
  The writer talks to the file system through \<open>os.Rename\<close>, \<open>os.OpenFile\<close>,
  \<open>os.Remove\<close> and the methods of \<open>*os.File\<close>. The model keeps a flat directory
  (path to inode), the contents of every inode, and a table of file handles. An open
  handle follows its inode through renames and removals, as a descriptor does.

  Every fallible call consumes one entry of a script of outcomes, so that a theorem
  quantified over the world covers every pattern of I/O failures; an exhausted script
  means that the call is not disturbed.
\<close>

type_synonym byte = "8 word"
type_synonym bytes = "byte list"
type_synonym path = string
type_synonym fd = nat

datatype error =
    ErrInvalidArgument  \<comment> \<open>rollingwriter.ErrInvalidArgument\<close>
  | ErrClosed           \<comment> \<open>rollingwriter.ErrClosed\<close>
  | ENOENT              \<comment> \<open>the path does not exist\<close>
  | EIO                 \<comment> \<open>a failure injected by the script of outcomes\<close>
  | ErrFileClosed       \<comment> \<open>os.ErrClosed: use of a closed \<open>*os.File\<close>\<close>
  | ErrInvalid          \<comment> \<open>os.ErrInvalid: method call on a nil \<open>*os.File\<close>\<close>
  | PanicMakeslice      \<comment> \<open>runtime panic of \<open>make\<close>: cap out of range\<close>

datatype outcome = Succeed | Fail nat
  \<comment> \<open>\<open>Fail k\<close>: the call fails; a write has transferred \<open>k\<close> bytes at most before\<close>

record handle =
  ino :: nat
  offset :: nat
  is_open :: bool

datatype pc = At_start | At_send | At_defer | Finished

text \<open>
  The anonymous goroutine of \<open>Reopen\<close> with its captured variables \<open>oldfile\<close> and
  \<open>file\<close>, and the point it has reached: not yet run, blocked in \<open>w.fileCh <- file\<close>,
  about to run the deferred \<open>Close\<close>, or finished.
\<close>

record completion =
  g_oldfile :: fd
  g_file :: path
  g_pc :: pc

text \<open>
  Beside the file system the world holds what the Go runtime holds: the lines given to
  \<open>log.Println\<close>, the completion goroutines started by \<open>Reopen\<close>, whether
  \<open>go wr.AutoRemove()\<close> has been started, and the global \<open>_asyncBufferPool\<close>.
\<close>

record world =
  names :: "path \<Rightarrow> nat option"
  inodes :: "nat \<Rightarrow> bytes"
  next_ino :: nat
  fds :: "fd \<Rightarrow> handle option"
  next_fd :: nat
  faults :: "outcome list"
  logged :: "(string \<times> error) list"
  gos :: "completion list"
  autoremove :: bool
  pool :: "bytes list"

definition next_fault :: "world \<Rightarrow> outcome \<times> world" where
  "next_fault wld =
     (case faults wld of
        [] \<Rightarrow> (Succeed, wld)
      | f # fs \<Rightarrow> (f, wld\<lparr>faults := fs\<rparr>))"

definition os_Rename :: "path \<Rightarrow> path \<Rightarrow> world \<Rightarrow> error option \<times> world" where
  "os_Rename oldp newp wld =
     (case next_fault wld of
        (Fail k, wld1) \<Rightarrow> (Some EIO, wld1)
      | (Succeed, wld1) \<Rightarrow>
          (case names wld1 oldp of
             None \<Rightarrow> (Some ENOENT, wld1)
           | Some i \<Rightarrow> (None, wld1\<lparr>names := ((names wld1)(oldp := None))(newp \<mapsto> i)\<rparr>)))"

text \<open>
  Modelled from the spec: \<open>DefaultFileFlag\<close> and \<open>DefaultFileMode\<close> are declared outside
  writer.go; the spec gives "create-if-absent, append mode, fixed permission". The handle
  is taken to be readable as well, as \<open>CompressFile\<close> reads from it.
\<close>

definition os_OpenFile :: "path \<Rightarrow> world \<Rightarrow> (error + fd) \<times> world" where
  "os_OpenFile p wld =
     (case next_fault wld of
        (Fail k, wld1) \<Rightarrow> (Inl EIO, wld1)
      | (Succeed, wld1) \<Rightarrow>
          (let wld2 = (case names wld1 p of
                         Some i \<Rightarrow> wld1
                       | None \<Rightarrow> wld1\<lparr>names := (names wld1)(p \<mapsto> next_ino wld1),
                                      inodes := (inodes wld1)(next_ino wld1 := []),
                                      next_ino := Suc (next_ino wld1)\<rparr>);
               f = next_fd wld2
           in (Inr f,
               wld2\<lparr>fds := (fds wld2)(f \<mapsto> \<lparr>ino = the (names wld2 p), offset = 0, is_open = True\<rparr>),
                    next_fd := Suc f\<rparr>)))"

definition os_Remove :: "path \<Rightarrow> world \<Rightarrow> error option \<times> world" where
  "os_Remove p wld =
     (case next_fault wld of
        (Fail k, wld1) \<Rightarrow> (Some EIO, wld1)
      | (Succeed, wld1) \<Rightarrow>
          (case names wld1 p of
             None \<Rightarrow> (Some ENOENT, wld1)
           | Some i \<Rightarrow> (None, wld1\<lparr>names := (names wld1)(p := None)\<rparr>)))"

text \<open>\<open>(*os.File).Write\<close> on a handle opened with \<open>O_APPEND\<close>: the bytes go to the end.\<close>

definition file_Write :: "fd \<Rightarrow> bytes \<Rightarrow> world \<Rightarrow> (nat \<times> error option) \<times> world" where
  "file_Write f b wld =
     (case fds wld f of
        None \<Rightarrow> ((0, Some ErrInvalid), wld)
      | Some h \<Rightarrow>
          if \<not> is_open h then ((0, Some ErrFileClosed), wld)
          else
            (case next_fault wld of
               (Fail k, wld1) \<Rightarrow>
                 (let d = inodes wld1 (ino h) @ take k b
                  in ((min k (length b), Some EIO),
                      wld1\<lparr>inodes := (inodes wld1)(ino h := d),
                           fds := (fds wld1)(f \<mapsto> h\<lparr>offset := length d\<rparr>)\<rparr>))
             | (Succeed, wld1) \<Rightarrow>
                 (let d = inodes wld1 (ino h) @ b
                  in ((length b, None),
                      wld1\<lparr>inodes := (inodes wld1)(ino h := d),
                           fds := (fds wld1)(f \<mapsto> h\<lparr>offset := length d\<rparr>)\<rparr>))))"

definition file_Close :: "fd \<Rightarrow> world \<Rightarrow> error option \<times> world" where
  "file_Close f wld =
     (case fds wld f of
        None \<Rightarrow> (Some ErrInvalid, wld)
      | Some h \<Rightarrow>
          if \<not> is_open h then (Some ErrFileClosed, wld)
          else (None, wld\<lparr>fds := (fds wld)(f \<mapsto> h\<lparr>is_open := False\<rparr>)\<rparr>))"

text \<open>\<open>oldfile.Seek(0, 0)\<close>: the only seek of the source, to the start of the file.\<close>

definition file_Seek0 :: "fd \<Rightarrow> world \<Rightarrow> error option \<times> world" where
  "file_Seek0 f wld =
     (case fds wld f of
        None \<Rightarrow> (Some ErrInvalid, wld)
      | Some h \<Rightarrow>
          if \<not> is_open h then (Some ErrFileClosed, wld)
          else
            (case next_fault wld of
               (Fail k, wld1) \<Rightarrow> (Some EIO, wld1)
             | (Succeed, wld1) \<Rightarrow> (None, wld1\<lparr>fds := (fds wld1)(f \<mapsto> h\<lparr>offset := 0\<rparr>)\<rparr>)))"

definition log_Println :: "string \<Rightarrow> error \<Rightarrow> world \<Rightarrow> world" where
  "log_Println msg e wld = wld\<lparr>logged := logged wld @ [(msg, e)]\<rparr>"

section \<open>Configuration and the base writer\<close>

text \<open>
  Modelled from the spec: the struct \<open>Config\<close> is declared outside writer.go. The
  spec lists its fields as log directory path, file name, write-mode selector,
  max-retained-file-count, compress-on-rotate flag and buffer threshold; these are the
  names under which writer.go reads them, with the types its uses require. Go's \<open>int\<close>
  is taken at 64 bits.
\<close>

record Config =
  LogPath :: string
  FileName :: string
  WriterMode :: string
  MaxRemain :: "64 word"
  Compress :: bool
  BufferWriterThershould :: "64 word"

text \<open>
  The struct \<open>Writer\<close>. The channel \<open>fire\<close> is represented by the destination paths that
  the rotation-trigger engine has made receivable. \<open>fileCh\<close> is \<open>None\<close> for Go's nil
  channel and \<open>Some q\<close> for a channel made by \<open>make(chan string)\<close>; that channel is
  unbuffered, so its state \<open>q\<close> is the queue of the goroutines blocked sending on it
  (indices into \<open>gos\<close>), first come first served as in the Go runtime. The field
  \<open>file\<close> is \<open>file_fd\<close> here, \<open>file\<close> being a keyword of Isabelle.
\<close>

record Writer =
  file_fd :: fd
  absPath :: path
  fire :: "path list"
  cf :: Config
  rollingfilelist :: "path list"
  fileCh :: "nat list option"

definition spawn :: "completion \<Rightarrow> world \<Rightarrow> world" where
  "spawn g wld = wld\<lparr>gos := gos wld @ [g]\<rparr>"

text \<open>
  \<open>Reopen\<close>: rename, open, swap the handle, start the completion goroutine.
\<close>

definition Reopen :: "path \<Rightarrow> 'a Writer_scheme \<Rightarrow> world \<Rightarrow> error option \<times> 'a Writer_scheme \<times> world" where
  "Reopen dest w wld =
     (case os_Rename (absPath w) dest wld of
        (Some err, wld1) \<Rightarrow> (Some err, w, wld1)
      | (None, wld1) \<Rightarrow>
          (case os_OpenFile (absPath w) wld1 of
             (Inl err, wld2) \<Rightarrow> (Some err, w, wld2)
           | (Inr newfile, wld2) \<Rightarrow>
               (let oldfile = file_fd w
                in (None, w\<lparr>file_fd := newfile\<rparr>,
                    spawn \<lparr>g_oldfile = oldfile, g_file = dest, g_pc = At_start\<rparr> wld2))))"

section \<open>What writer.go takes from the rest of the repository and from libraries\<close>

text \<open>
  The constants \<open>BufferSize\<close> and \<open>QueueSize\<close>, the helper \<open>LogFilePath\<close> and the
  constructor \<open>NewManager\<close> of the rotation-trigger engine are declared in other files
  of the repository; \<open>compress/gzip\<close> is a library. They are parameters of the model:
  \<open>NewManager\<close> is reduced to the error it may return and \<open>gzip\<close> to the function
  from an input to its gzip stream.
\<close>

record externs =
  BufferSize :: nat
  QueueSize :: nat
  LogFilePath :: "Config \<Rightarrow> path"
  NewManager :: "Config \<Rightarrow> error option"
  gzip :: "bytes \<Rightarrow> bytes"

section \<open>Compression\<close>

text \<open>
  A \<open>gzip.Writer\<close> on top of a file: what has been written into it and not yet
  encoded. \<open>gw.Close()\<close> writes the encoded stream to the underlying file; the source
  calls it in a \<open>defer\<close> and drops its result.
\<close>

record gzip_Writer =
  gz_dst :: fd
  gz_buf :: bytes

definition gzip_NewWriter :: "fd \<Rightarrow> gzip_Writer" where
  "gzip_NewWriter f = \<lparr>gz_dst = f, gz_buf = []\<rparr>"

definition gzip_Close :: "externs \<Rightarrow> gzip_Writer \<Rightarrow> world \<Rightarrow> world" where
  "gzip_Close X gw wld = snd (file_Write (gz_dst gw) (gzip X (gz_buf gw)) wld)"

text \<open>
  \<open>io.Copy(gw, oldfile)\<close>: reads \<open>oldfile\<close> from its offset to the end of the file
  into \<open>gw\<close>. A failure after \<open>k\<close> bytes leaves those \<open>k\<close> bytes in \<open>gw\<close>.
\<close>

definition io_Copy :: "gzip_Writer \<Rightarrow> fd \<Rightarrow> world \<Rightarrow> (gzip_Writer \<times> error option) \<times> world" where
  "io_Copy gw src wld =
     (case fds wld src of
        None \<Rightarrow> ((gw, Some ErrInvalid), wld)
      | Some h \<Rightarrow>
          if \<not> is_open h then ((gw, Some ErrFileClosed), wld)
          else
            (case next_fault wld of
               (Fail k, wld1) \<Rightarrow>
                 (let d = take k (drop (offset h) (inodes wld1 (ino h)))
                  in ((gw\<lparr>gz_buf := gz_buf gw @ d\<rparr>, Some EIO),
                      wld1\<lparr>fds := (fds wld1)(src \<mapsto> h\<lparr>offset := offset h + length d\<rparr>)\<rparr>))
             | (Succeed, wld1) \<Rightarrow>
                 (let d = drop (offset h) (inodes wld1 (ino h))
                  in ((gw\<lparr>gz_buf := gz_buf gw @ d\<rparr>, None),
                      wld1\<lparr>fds := (fds wld1)(src \<mapsto> h\<lparr>offset := offset h + length d\<rparr>)\<rparr>))))"

text \<open>
  \<open>CompressFile\<close>. The two deferred calls run when the function returns, \<open>gw.Close()\<close>
  before \<open>cmpfile.Close()\<close>. In the branch of a failed copy the source tests \<open>err\<close>,
  the error of \<open>io.Copy\<close>, which is not nil there: the branch returns \<open>errR\<close>, the
  result of \<open>os.Remove\<close>, and \<open>return err\<close> is never reached.
\<close>

definition CompressFile :: "externs \<Rightarrow> fd \<Rightarrow> path \<Rightarrow> world \<Rightarrow> error option \<times> world" where
  "CompressFile X oldfile cmpname wld =
     (case os_OpenFile cmpname wld of
        (Inl err, wld1) \<Rightarrow> (Some err, wld1)
      | (Inr cmpfile, wld1) \<Rightarrow>
          (let gw = gzip_NewWriter cmpfile
           in (case file_Seek0 oldfile wld1 of
                 (Some err, wld2) \<Rightarrow>
                   (Some err, snd (file_Close cmpfile (gzip_Close X gw wld2)))
               | (None, wld2) \<Rightarrow>
                   (case io_Copy gw oldfile wld2 of
                      ((gw1, Some err), wld3) \<Rightarrow>
                        (case os_Remove cmpname wld3 of
                           (errR, wld4) \<Rightarrow>
                             (errR, snd (file_Close cmpfile (gzip_Close X gw1 wld4))))
                    | ((gw1, None), wld3) \<Rightarrow>
                        (case os_Remove (cmpname @ ''.tmp'') wld3 of
                           (r, wld4) \<Rightarrow>
                             (r, snd (file_Close cmpfile (gzip_Close X gw1 wld4))))))))"

section \<open>The completion goroutine of Reopen and the retention manager\<close>

definition set_pc :: "nat \<Rightarrow> pc \<Rightarrow> world \<Rightarrow> world" where
  "set_pc i p wld = wld\<lparr>gos := (gos wld)[i := (gos wld ! i)\<lparr>g_pc := p\<rparr>]\<rparr>"

text \<open>
  \<open>arrive\<close> is the goroutine \<open>i\<close> reaching \<open>w.fileCh <- file\<close>: on a channel it joins
  the queue of blocked senders; on the nil channel it blocks and nothing records it,
  since nothing can ever receive from the nil channel.
\<close>

definition arrive :: "nat \<Rightarrow> 'a Writer_scheme \<Rightarrow> 'a Writer_scheme" where
  "arrive i w = (case fileCh w of None \<Rightarrow> w | Some q \<Rightarrow> w\<lparr>fileCh := Some (q @ [i])\<rparr>)"

text \<open>
  One scheduling of the goroutine \<open>i\<close>. From its start it runs to the send (or to the
  \<open>return\<close> after a logged error, where only the deferred \<open>Close\<close> is left); at the
  send it stays until \<open>AutoRemove\<close> receives from it; then it closes \<open>oldfile\<close>.
\<close>

definition completion_step :: "externs \<Rightarrow> nat \<Rightarrow> 'a Writer_scheme \<Rightarrow> world \<Rightarrow> 'a Writer_scheme \<times> world" where
  "completion_step X i w wld =
     (if length (gos wld) \<le> i then (w, wld)
      else
        (let g = gos wld ! i
         in (case g_pc g of
               At_start \<Rightarrow>
                 (if Compress (cf w) then
                    (case os_Rename (g_file g) (g_file g @ ''.tmp'') wld of
                       (Some err, wld1) \<Rightarrow>
                         (w, set_pc i At_defer (log_Println ''error in compress rename tempfile'' err wld1))
                     | (None, wld1) \<Rightarrow>
                         (case CompressFile X (g_oldfile g) (g_file g) wld1 of
                            (Some err, wld2) \<Rightarrow>
                              (w, set_pc i At_defer (log_Println ''error in compress log file'' err wld2))
                          | (None, wld2) \<Rightarrow> (arrive i w, set_pc i At_send wld2)))
                  else (arrive i w, set_pc i At_send wld))
             | At_send \<Rightarrow> (w, wld)
             | At_defer \<Rightarrow> (w, set_pc i Finished (snd (file_Close (g_oldfile g) wld)))
             | Finished \<Rightarrow> (w, wld))))"

text \<open>
  The inner loop of \<open>AutoRemove\<close>: while \<open>MaxRemain >= 0\<close> and the list is longer than
  \<open>MaxRemain\<close>, remove the first file and drop it from the list, whether the removal
  succeeded or not. The loop guard fails on the empty list when \<open>MaxRemain >= 0\<close>.
\<close>

fun evict :: "64 word \<Rightarrow> path list \<Rightarrow> world \<Rightarrow> path list \<times> world" where
  "evict k [] wld = ([], wld)"
| "evict k (f # fs) wld =
     (if 0 \<le> sint k \<and> int (length (f # fs)) > sint k then
        (case os_Remove f wld of
           (Some err, wld1) \<Rightarrow> evict k fs (log_Println ''error in auto remove log file'' err wld1)
         | (None, wld1) \<Rightarrow> evict k fs wld1)
      else (f # fs, wld))"

text \<open>The body of the outer loop of \<open>AutoRemove\<close> once \<open>file\<close> has been received.\<close>

definition AutoRemove_received :: "path \<Rightarrow> 'a Writer_scheme \<Rightarrow> world \<Rightarrow> 'a Writer_scheme \<times> world" where
  "AutoRemove_received f w wld =
     (case evict (MaxRemain (cf w)) (rollingfilelist w @ [f]) wld of
        (l, wld1) \<Rightarrow> (w\<lparr>rollingfilelist := l\<rparr>, wld1))"

text \<open>
  One iteration of \<open>AutoRemove\<close>, if it can make one: \<open><-w.fileCh\<close> blocks for ever on
  the nil channel and waits while no sender is queued; otherwise it takes the value of the
  first blocked sender, which resumes at its deferred \<open>Close\<close>.
\<close>

definition AutoRemove_step :: "'a Writer_scheme \<Rightarrow> world \<Rightarrow> 'a Writer_scheme \<times> world" where
  "AutoRemove_step w wld =
     (if \<not> autoremove wld then (w, wld)
      else
        (case fileCh w of
           None \<Rightarrow> (w, wld)
         | Some [] \<Rightarrow> (w, wld)
         | Some (i # q) \<Rightarrow>
             AutoRemove_received (g_file (gos wld ! i)) (w\<lparr>fileCh := Some q\<rparr>) (set_pc i At_defer wld)))"

text \<open>All the notifications \<open>fs\<close> received by \<open>AutoRemove\<close> one after the other.\<close>

fun AutoRemove_all :: "path list \<Rightarrow> 'a Writer_scheme \<Rightarrow> world \<Rightarrow> 'a Writer_scheme \<times> world" where
  "AutoRemove_all [] w wld = (w, wld)"
| "AutoRemove_all (f # fs) w wld =
     (case AutoRemove_received f w wld of (w1, wld1) \<Rightarrow> AutoRemove_all fs w1 wld1)"

section \<open>The plain and the locked writer\<close>

definition Writer_Write :: "bytes \<Rightarrow> Writer \<Rightarrow> world \<Rightarrow> (nat \<times> error option) \<times> Writer \<times> world" where
  "Writer_Write b w wld =
     (case fire w of
        filename # rest \<Rightarrow>
          (case Reopen filename (w\<lparr>fire := rest\<rparr>) wld of
             (Some err, w1, wld1) \<Rightarrow> ((0, Some err), w1, wld1)
           | (None, w1, wld1) \<Rightarrow>
               (case file_Write (file_fd w1) b wld1 of (r, wld2) \<Rightarrow> (r, w1, wld2)))
      | [] \<Rightarrow> (case file_Write (file_fd w) b wld of (r, wld1) \<Rightarrow> (r, w, wld1)))"

definition Writer_Close :: "Writer \<Rightarrow> world \<Rightarrow> error option \<times> Writer \<times> world" where
  "Writer_Close w wld = (case file_Close (file_fd w) wld of (r, wld1) \<Rightarrow> (r, w, wld1))"

text \<open>
  \<open>LockedWriter\<close> embeds \<open>Writer\<close> and adds no field. Its \<open>Write\<close> and \<open>Close\<close> load the
  handle atomically; called one at a time they read the same field.
\<close>

type_synonym LockedWriter = Writer

definition LockedWriter_Write :: "bytes \<Rightarrow> LockedWriter \<Rightarrow> world \<Rightarrow> (nat \<times> error option) \<times> LockedWriter \<times> world" where
  "LockedWriter_Write b w wld =
     (case (case fire w of
              filename # rest \<Rightarrow> Reopen filename (w\<lparr>fire := rest\<rparr>) wld
            | [] \<Rightarrow> (None, w, wld)) of
        (Some err, w1, wld1) \<Rightarrow> ((0, Some err), w1, wld1)
      | (None, w1, wld1) \<Rightarrow>
          (case file_Write (file_fd w1) b wld1 of (r, wld2) \<Rightarrow> (r, w1, wld2)))"

definition LockedWriter_Close :: "LockedWriter \<Rightarrow> world \<Rightarrow> error option \<times> LockedWriter \<times> world" where
  "LockedWriter_Close w wld = (case file_Close (file_fd w) wld of (r, wld1) \<Rightarrow> (r, w, wld1))"

section \<open>The asynchronous writer\<close>

text \<open>
  A call that cannot return in the state it is made in, because it is blocked in a send
  on a full channel, has the result \<open>Blocks\<close>; the state returned with it is the one
  reached at the blocking send. \<open>Panics\<close> is a runtime panic.
\<close>

datatype 'a call = Returns 'a | Blocks | Panics

text \<open>
  The goroutine \<open>writer()\<close>: at its \<open>select\<close>, holding a chunk received from the
  queue, blocked in \<open>w.errChan <- err\<close>, about to give the chunk back to the pool, or
  returned.
\<close>

datatype worker = W_select | W_write bytes | W_errsend error bytes | W_put bytes | W_returned

text \<open>
  The struct \<open>AsynchronousWriter\<close>. \<open>ctx\<close> is only ever closed, so it is the flag
  "closed"; \<open>queue\<close> is the content of the buffered channel; the unbuffered \<open>errChan\<close>
  is the number of goroutines of the owner blocked receiving from it, its one blocking
  sender being the worker in \<open>W_errsend\<close>. The wait group only delays the constructor
  until the worker has started; \<open>worker\<close> is the state of that goroutine.
\<close>

record AsynchronousWriter = Writer +
  ctx :: bool
  queue :: "bytes list"
  errChan :: nat
  closed :: "32 word"
  worker :: worker

text \<open>
  \<open>_asyncBufferPool\<close>: \<open>Get\<close> hands out a buffer that was \<open>Put\<close>, with the length it
  had then, or a buffer of \<open>BufferSize\<close> zero bytes from \<open>New\<close>.
\<close>

definition pool_Get :: "externs \<Rightarrow> world \<Rightarrow> bytes \<times> world" where
  "pool_Get X wld =
     (case pool wld of
        [] \<Rightarrow> (replicate (BufferSize X) 0, wld)
      | b # rest \<Rightarrow> (b, wld\<lparr>pool := rest\<rparr>))"

definition pool_Put :: "bytes \<Rightarrow> world \<Rightarrow> world" where
  "pool_Put b wld = wld\<lparr>pool := b # pool wld\<rparr>"

text \<open>
  The loop of the rotation branch: \<open>n := copy(buf, b)\<close> copies \<open>min (len buf) (len b)\<close>
  bytes, \<open>buf[:n]\<close> is sent and \<open>b = b[n:]\<close>. Every pass sends one chunk, so the loop
  ends or blocks on the full queue.
\<close>

function enqueue_chunks :: "externs \<Rightarrow> bytes \<Rightarrow> bytes list \<Rightarrow> world \<Rightarrow> bool \<times> bytes list \<times> world" where
  "enqueue_chunks X b q wld =
     (if b = [] then (True, q, wld)
      else
        (case pool_Get X wld of
           (pbuf, wld1) \<Rightarrow>
             (let k = min (length pbuf) (length b)
              in if length q < QueueSize X
                 then enqueue_chunks X (drop k b) (q @ [take k b]) wld1
                 else (False, q, wld1))))"
  by pat_completeness auto
termination
  by (relation "measure (\<lambda>(X, b, q, wld). QueueSize X - length q)") auto

declare enqueue_chunks.simps [simp del]

text \<open>The three branches of the \<open>select\<close> of \<open>AsynchronousWriter.Write\<close>.\<close>

definition Write_errChan :: "error \<Rightarrow> bytes \<Rightarrow> AsynchronousWriter \<Rightarrow> world \<Rightarrow> (nat \<times> error option) call \<times> AsynchronousWriter \<times> world" where
  "Write_errChan err c a wld = (Returns (0, Some err), a\<lparr>worker := W_put c\<rparr>, wld)"

definition Write_fire :: "externs \<Rightarrow> path \<Rightarrow> bytes \<Rightarrow> AsynchronousWriter \<Rightarrow> world \<Rightarrow> (nat \<times> error option) call \<times> AsynchronousWriter \<times> world" where
  "Write_fire X filename b a wld =
     (case Reopen filename (a\<lparr>fire := tl (fire a)\<rparr>) wld of
        (Some err, a1, wld1) \<Rightarrow> (Returns (0, Some err), a1, wld1)
      | (None, a1, wld1) \<Rightarrow>
          (case enqueue_chunks X b (queue a1) wld1 of
             (True, q, wld2) \<Rightarrow> (Returns (length b, None), a1\<lparr>queue := q\<rparr>, wld2)
           | (False, q, wld2) \<Rightarrow> (Blocks, a1\<lparr>queue := q\<rparr>, wld2)))"

text \<open>
  The default branch sends \<open>append(_asyncBufferPool.Get().([]byte)[0:], b...)[:len(b)]\<close>:
  \<open>[0:]\<close> keeps the whole pooled buffer, \<open>append\<close> puts \<open>b\<close> behind it, and \<open>[:len(b)]\<close>
  keeps the first \<open>len(b)\<close> bytes of the result.
\<close>

definition Write_default :: "externs \<Rightarrow> bytes \<Rightarrow> AsynchronousWriter \<Rightarrow> world \<Rightarrow> (nat \<times> error option) call \<times> AsynchronousWriter \<times> world" where
  "Write_default X b a wld =
     (case pool_Get X wld of
        (pbuf, wld1) \<Rightarrow>
          (let chunk = take (length b) (pbuf @ b)
           in if length (queue a) < QueueSize X
              then (Returns (length b, None), a\<lparr>queue := queue a @ [chunk]\<rparr>, wld1)
              else (Blocks, a, wld1)))"

text \<open>
  \<open>AsynchronousWriter.Write\<close>. When both \<open>errChan\<close> and \<open>fire\<close> can be received from,
  Go's \<open>select\<close> takes either; \<open>pick_fire\<close> is that choice.
\<close>

definition AsynchronousWriter_Write :: "externs \<Rightarrow> bool \<Rightarrow> bytes \<Rightarrow> AsynchronousWriter \<Rightarrow> world \<Rightarrow> (nat \<times> error option) call \<times> AsynchronousWriter \<times> world" where
  "AsynchronousWriter_Write X pick_fire b a wld =
     (if closed a = 0 then
        (case (worker a, fire a) of
           (W_errsend err c, []) \<Rightarrow> Write_errChan err c a wld
         | (W_errsend err c, filename # rest) \<Rightarrow>
             (if pick_fire then Write_fire X filename b a wld else Write_errChan err c a wld)
         | (_, filename # rest) \<Rightarrow> Write_fire X filename b a wld
         | (_, []) \<Rightarrow> Write_default X b a wld)
      else (Returns (0, Some ErrClosed), a, wld))"

text \<open>
  One scheduling of the worker. At the \<open>select\<close> with both a chunk queued and \<open>ctx\<close>
  closed either case may be taken: \<open>pick_ctx\<close>.
\<close>

definition worker_step :: "bool \<Rightarrow> AsynchronousWriter \<Rightarrow> world \<Rightarrow> AsynchronousWriter \<times> world" where
  "worker_step pick_ctx a wld =
     (case worker a of
        W_select \<Rightarrow>
          (case queue a of
             [] \<Rightarrow> (if ctx a then (a\<lparr>worker := W_returned\<rparr>, wld) else (a, wld))
           | b # q \<Rightarrow>
               (if ctx a \<and> pick_ctx then (a\<lparr>worker := W_returned\<rparr>, wld)
                else (a\<lparr>queue := q, worker := W_write b\<rparr>, wld)))
      | W_write b \<Rightarrow>
          (case file_Write (file_fd a) b wld of
             ((k, Some err), wld1) \<Rightarrow>
               (if 0 < errChan a then (a\<lparr>errChan := errChan a - 1, worker := W_put b\<rparr>, wld1)
                else (a\<lparr>worker := W_errsend err b\<rparr>, wld1))
           | ((k, None), wld1) \<Rightarrow> (a\<lparr>worker := W_put b\<rparr>, wld1))
      | W_errsend err b \<Rightarrow> (a, wld)
      | W_put b \<Rightarrow> (a\<lparr>worker := W_select\<rparr>, pool_Put b wld)
      | W_returned \<Rightarrow> (a, wld))"

text \<open>A goroutine of the owner starts to receive from the error channel.\<close>

definition errChan_receive :: "AsynchronousWriter \<Rightarrow> AsynchronousWriter" where
  "errChan_receive a =
     (case worker a of
        W_errsend err b \<Rightarrow> a\<lparr>worker := W_put b\<rparr>
      | _ \<Rightarrow> a\<lparr>errChan := Suc (errChan a)\<rparr>)"

text \<open>
  \<open>onClose\<close> while the worker is not scheduled, as a loop over the queue with the
  handle \<open>f\<close> and the number \<open>r\<close> of receivers waiting on \<open>errChan\<close>: the inner
  \<open>select\<close> can send only to a waiting receiver, and its \<open>default\<close> puts the buffer
  back and returns from \<open>onClose\<close>.
\<close>

fun onClose_loop :: "fd \<Rightarrow> bytes list \<Rightarrow> nat \<Rightarrow> world \<Rightarrow> bytes list \<times> nat \<times> world" where
  "onClose_loop f [] r wld = ([], r, wld)"
| "onClose_loop f (b # q) r wld =
     (case file_Write f b wld of
        ((k, Some err), wld1) \<Rightarrow>
          (if 0 < r then onClose_loop f q (r - 1) (pool_Put b wld1)
           else (q, r, pool_Put b wld1))
      | ((k, None), wld1) \<Rightarrow> onClose_loop f q r (pool_Put b wld1))"

definition onClose :: "AsynchronousWriter \<Rightarrow> world \<Rightarrow> AsynchronousWriter \<times> world" where
  "onClose a wld =
     (case onClose_loop (file_fd a) (queue a) (errChan a) wld of
        (q, r, wld1) \<Rightarrow> (a\<lparr>queue := q, errChan := r\<rparr>, wld1))"

text \<open>
  \<open>Close\<close> does not wait for the worker, which goes on receiving from the same queue
  and writing to the same handle while \<open>Close\<close> runs. An interleaving says how the
  worker is scheduled meanwhile, each Boolean being one scheduling of the worker as in
  \<open>worker_step\<close>: after the compare-and-swap and before \<open>close(w.ctx)\<close>; in every
  pass of the loop of \<open>onClose\<close>, before its \<open>select\<close> and before its write; and
  before \<open>w.file.Close()\<close>. Passes beyond the ones listed run with the worker not
  scheduled. Within a pass the write, the send on \<open>errChan\<close> and the \<open>Put\<close> are
  taken together. After \<open>Close\<close> has returned the worker is scheduled by
  \<open>Go_worker\<close> like before it.
\<close>

type_synonym interleaving = "bool list \<times> (bool list \<times> bool list) list \<times> bool list"

fun worker_steps :: "bool list \<Rightarrow> AsynchronousWriter \<Rightarrow> world \<Rightarrow> AsynchronousWriter \<times> world" where
  "worker_steps [] a wld = (a, wld)"
| "worker_steps (c # cs) a wld = (case worker_step c a wld of (a1, wld1) \<Rightarrow> worker_steps cs a1 wld1)"

fun onClose_sched :: "(bool list \<times> bool list) list \<Rightarrow> AsynchronousWriter \<Rightarrow> world \<Rightarrow> AsynchronousWriter \<times> world" where
  "onClose_sched [] a wld = onClose a wld"
| "onClose_sched ((ws1, ws2) # s) a wld =
     (case worker_steps ws1 a wld of
        (a1, wld1) \<Rightarrow>
          (case queue a1 of
             [] \<Rightarrow> (a1, wld1)
           | b # q \<Rightarrow>
               (case worker_steps ws2 (a1\<lparr>queue := q\<rparr>) wld1 of
                  (a2, wld2) \<Rightarrow>
                    (case file_Write (file_fd a2) b wld2 of
                       ((k, Some err), wld3) \<Rightarrow>
                         (if 0 < errChan a2
                          then onClose_sched s (a2\<lparr>errChan := errChan a2 - 1\<rparr>) (pool_Put b wld3)
                          else (a2, pool_Put b wld3))
                     | ((k, None), wld3) \<Rightarrow> onClose_sched s a2 (pool_Put b wld3)))))"

text \<open>
  \<open>AsynchronousWriter.Close\<close> under the interleaving \<open>il\<close>: the compare-and-swap on
  \<open>closed\<close>, \<open>close(w.ctx)\<close>, \<open>onClose\<close>, \<open>w.file.Close()\<close>.
\<close>

definition AsynchronousWriter_Close :: "interleaving \<Rightarrow> AsynchronousWriter \<Rightarrow> world \<Rightarrow> error option \<times> AsynchronousWriter \<times> world" where
  "AsynchronousWriter_Close il a wld =
     (case il of
        (ws0, s, ws9) \<Rightarrow>
          if closed a = 0 then
            (case worker_steps ws0 (a\<lparr>closed := 1\<rparr>) wld of
               (a1, wld1) \<Rightarrow>
                 (case onClose_sched s (a1\<lparr>ctx := True\<rparr>) wld1 of
                    (a2, wld2) \<Rightarrow>
                      (case worker_steps ws9 a2 wld2 of
                         (a3, wld3) \<Rightarrow>
                           (case file_Close (file_fd a3) wld3 of (r, wld4) \<Rightarrow> (r, a3, wld4)))))
          else (Some ErrClosed, a, wld))"

section \<open>The buffered writer\<close>

text \<open>
  The struct \<open>BufferWriter\<close>; its field \<open>n\<close>, which writer.go never reads or
  writes, is \<open>n_unused\<close> here.
\<close>

record BufferWriter = Writer +
  buf :: bytes
  n_unused :: "64 word"
  swaping :: "32 word"

text \<open>
  \<open>make([]T, 0, c)\<close> panics when \<open>c\<close> is negative or when \<open>c\<close> elements of \<open>esize\<close>
  bytes exceed what the runtime can allocate (\<open>2 ^ 48\<close> bytes on amd64).
\<close>

definition makeslice_ok :: "nat \<Rightarrow> 64 word \<Rightarrow> bool" where
  "makeslice_ok esize c = (0 \<le> sint c \<and> sint c * int esize \<le> 2 ^ 48)"

definition BufferWriter_Write :: "bytes \<Rightarrow> BufferWriter \<Rightarrow> world \<Rightarrow> (nat \<times> error option) call \<times> BufferWriter \<times> world" where
  "BufferWriter_Write b w wld =
     (case (case fire w of
              filename # rest \<Rightarrow> Reopen filename (w\<lparr>fire := rest\<rparr>) wld
            | [] \<Rightarrow> (None, w, wld)) of
        (Some err, w1, wld1) \<Rightarrow> (Returns (0, Some err), w1, wld1)
      | (None, w1, wld1) \<Rightarrow>
          (let w2 = w1\<lparr>buf := buf w1 @ b\<rparr>
           in if sint (BufferWriterThershould (cf w2)) < int (length (buf w2)) \<and> swaping w2 = 0
              then
                (let w3 = w2\<lparr>swaping := 1\<rparr>
                 in if \<not> makeslice_ok 1 (BufferWriterThershould (cf w3) * 10)
                    then (Panics, w3, wld1)
                    else
                      (let ob = buf w3;
                           w4 = w3\<lparr>buf := []\<rparr>;
                           wld2 = snd (file_Write (file_fd w4) ob wld1)
                       in (Returns (length b, None), w4\<lparr>swaping := 0\<rparr>, wld2)))
              else (Returns (length b, None), w2, wld1)))"

definition BufferWriter_Close :: "BufferWriter \<Rightarrow> world \<Rightarrow> error option \<times> BufferWriter \<times> world" where
  "BufferWriter_Close w wld =
     (case file_Close (file_fd w) (snd (file_Write (file_fd w) (buf w) wld)) of
        (r, wld1) \<Rightarrow> (r, w, wld1))"

section \<open>Construction\<close>

text \<open>The interface \<open>RollingWriter\<close> with its four implementations.\<close>

datatype rolling =
    RW_none Writer
  | RW_lock LockedWriter
  | RW_async AsynchronousWriter
  | RW_buffer BufferWriter

definition os_MkdirAll :: "path \<Rightarrow> world \<Rightarrow> error option \<times> world" where
  "os_MkdirAll p wld =
     (case next_fault wld of
        (Fail k, wld1) \<Rightarrow> (Some EIO, wld1)
      | (Succeed, wld1) \<Rightarrow> (None, wld1))"

text \<open>
  \<open>NewWriterFromConfig\<close>. The composite literals of the modes "none", "async" and
  "buffer" do not mention \<open>fileCh\<close>, which is then the nil channel; only "lock" makes
  one. \<open>AutoRemove\<close> is started in the modes "none", "lock" and "buffer". A panic of
  \<open>make\<close> is returned as the error \<open>PanicMakeslice\<close>.
\<close>

definition NewWriterFromConfig :: "externs \<Rightarrow> Config \<Rightarrow> world \<Rightarrow> (error + rolling) \<times> world" where
  "NewWriterFromConfig X c wld =
     (if LogPath c = [] \<or> FileName c = [] then (Inl ErrInvalidArgument, wld)
      else
        (case os_MkdirAll (LogPath c) wld of
           (Some err, wld1) \<Rightarrow> (Inl err, wld1)
         | (None, wld1) \<Rightarrow>
             (let filepath = LogFilePath X c
              in (case os_OpenFile filepath wld1 of
                    (Inl err, wld2) \<Rightarrow> (Inl err, wld2)
                  | (Inr f, wld2) \<Rightarrow>
                      (if 0 < sint (MaxRemain c) \<and> \<not> makeslice_ok 16 (MaxRemain c + 1)
                       then (Inl PanicMakeslice, wld2)
                       else
                         (case NewManager X c of
                            Some err \<Rightarrow> (Inl err, wld2)
                          | None \<Rightarrow>
                              (let wr = \<lparr>file_fd = f, absPath = filepath, fire = [], cf = c,
                                        rollingfilelist = [], fileCh = None\<rparr>
                               in if WriterMode c = ''none'' then
                                    (Inr (RW_none wr), wld2\<lparr>autoremove := True\<rparr>)
                                  else if WriterMode c = ''lock'' then
                                    (Inr (RW_lock (wr\<lparr>fileCh := Some []\<rparr>)), wld2\<lparr>autoremove := True\<rparr>)
                                  else if WriterMode c = ''async'' then
                                    (Inr (RW_async
                                       (Writer.extend wr
                                          (AsynchronousWriter.fields False [] 0 0 W_select))),
                                     wld2)
                                  else if WriterMode c = ''buffer'' then
                                    (if \<not> makeslice_ok 1 (BufferWriterThershould c * 10)
                                     then (Inl PanicMakeslice, wld2)
                                     else
                                       (Inr (RW_buffer
                                          (Writer.extend wr (BufferWriter.fields [] 0 0))),
                                        wld2\<lparr>autoremove := True\<rparr>))
                                  else (Inl ErrInvalidArgument, wld2))))))))"

section \<open>Runs of the system\<close>

text \<open>
  What can happen to a writer, one thing at a time: the rotation-trigger engine makes a
  destination path receivable on \<open>fire\<close>; the owner calls \<open>Write\<close> or \<open>Close\<close>; a
  goroutine is scheduled. The Boolean of \<open>Call_Write\<close> and \<open>Go_worker\<close> resolves a
  \<open>select\<close> with two ready cases; the interleaving of \<open>Call_Close\<close> is how the
  worker of an asynchronous writer runs during the call (the other writers have no
  worker). The results of the calls are dropped here; the theorems about a result are
  stated on the call itself.
\<close>

datatype action =
    Fire path
  | Call_Write bytes bool
  | Call_Close interleaving
  | Go_completion nat
  | Go_AutoRemove
  | Go_worker bool
  | Go_errChan_receiver

definition step_none :: "externs \<Rightarrow> action \<Rightarrow> Writer \<Rightarrow> world \<Rightarrow> Writer \<times> world" where
  "step_none X act w wld =
     (case act of
        Fire p \<Rightarrow> (w\<lparr>fire := fire w @ [p]\<rparr>, wld)
      | Call_Write b ch \<Rightarrow> snd (Writer_Write b w wld)
      | Call_Close il \<Rightarrow> snd (Writer_Close w wld)
      | Go_completion i \<Rightarrow> completion_step X i w wld
      | Go_AutoRemove \<Rightarrow> AutoRemove_step w wld
      | Go_worker ch \<Rightarrow> (w, wld)
      | Go_errChan_receiver \<Rightarrow> (w, wld))"

definition step_lock :: "externs \<Rightarrow> action \<Rightarrow> LockedWriter \<Rightarrow> world \<Rightarrow> LockedWriter \<times> world" where
  "step_lock X act w wld =
     (case act of
        Fire p \<Rightarrow> (w\<lparr>fire := fire w @ [p]\<rparr>, wld)
      | Call_Write b ch \<Rightarrow> snd (LockedWriter_Write b w wld)
      | Call_Close il \<Rightarrow> snd (LockedWriter_Close w wld)
      | Go_completion i \<Rightarrow> completion_step X i w wld
      | Go_AutoRemove \<Rightarrow> AutoRemove_step w wld
      | Go_worker ch \<Rightarrow> (w, wld)
      | Go_errChan_receiver \<Rightarrow> (w, wld))"

definition step_async :: "externs \<Rightarrow> action \<Rightarrow> AsynchronousWriter \<Rightarrow> world \<Rightarrow> AsynchronousWriter \<times> world" where
  "step_async X act a wld =
     (case act of
        Fire p \<Rightarrow> (a\<lparr>fire := fire a @ [p]\<rparr>, wld)
      | Call_Write b ch \<Rightarrow> snd (AsynchronousWriter_Write X ch b a wld)
      | Call_Close il \<Rightarrow> snd (AsynchronousWriter_Close il a wld)
      | Go_completion i \<Rightarrow> completion_step X i a wld
      | Go_AutoRemove \<Rightarrow> AutoRemove_step a wld
      | Go_worker ch \<Rightarrow> worker_step ch a wld
      | Go_errChan_receiver \<Rightarrow> (errChan_receive a, wld))"

definition step_buffer :: "externs \<Rightarrow> action \<Rightarrow> BufferWriter \<Rightarrow> world \<Rightarrow> BufferWriter \<times> world" where
  "step_buffer X act w wld =
     (case act of
        Fire p \<Rightarrow> (w\<lparr>fire := fire w @ [p]\<rparr>, wld)
      | Call_Write b ch \<Rightarrow> snd (BufferWriter_Write b w wld)
      | Call_Close il \<Rightarrow> snd (BufferWriter_Close w wld)
      | Go_completion i \<Rightarrow> completion_step X i w wld
      | Go_AutoRemove \<Rightarrow> AutoRemove_step w wld
      | Go_worker ch \<Rightarrow> (w, wld)
      | Go_errChan_receiver \<Rightarrow> (w, wld))"

definition step :: "externs \<Rightarrow> action \<Rightarrow> rolling \<times> world \<Rightarrow> rolling \<times> world" where
  "step X act s =
     (case s of
        (RW_none w, wld) \<Rightarrow> (case step_none X act w wld of (w1, wld1) \<Rightarrow> (RW_none w1, wld1))
      | (RW_lock w, wld) \<Rightarrow> (case step_lock X act w wld of (w1, wld1) \<Rightarrow> (RW_lock w1, wld1))
      | (RW_async a, wld) \<Rightarrow> (case step_async X act a wld of (a1, wld1) \<Rightarrow> (RW_async a1, wld1))
      | (RW_buffer w, wld) \<Rightarrow> (case step_buffer X act w wld of (w1, wld1) \<Rightarrow> (RW_buffer w1, wld1)))"

fun run :: "externs \<Rightarrow> action list \<Rightarrow> rolling \<times> world \<Rightarrow> rolling \<times> world" where
  "run X [] s = s"
| "run X (act # acts) s = run X acts (step X act s)"

text \<open>The fields of the embedded \<open>Writer\<close> that the theorems read through the interface.\<close>

definition fileCh_of :: "rolling \<Rightarrow> nat list option" where
  "fileCh_of rw =
     (case rw of
        RW_none w \<Rightarrow> fileCh w
      | RW_lock w \<Rightarrow> fileCh w
      | RW_async a \<Rightarrow> fileCh a
      | RW_buffer w \<Rightarrow> fileCh w)"

definition file_of :: "rolling \<Rightarrow> fd" where
  "file_of rw =
     (case rw of
        RW_none w \<Rightarrow> file_fd w
      | RW_lock w \<Rightarrow> file_fd w
      | RW_async a \<Rightarrow> file_fd a
      | RW_buffer w \<Rightarrow> file_fd w)"

text \<open>An empty file system, nothing running, no failure scheduled.\<close>

definition world0 :: world where
  "world0 = \<lparr>names = (\<lambda>p. None), inodes = (\<lambda>i. []), next_ino = 0, fds = (\<lambda>f. None),
             next_fd = 0, faults = [], logged = [], gos = [], autoremove = False, pool = []\<rparr>"

text \<open>Is the handle \<open>f\<close> open, what does the file at path \<open>p\<close> contain.\<close>

definition handle_open :: "world \<Rightarrow> fd \<Rightarrow> bool" where
  "handle_open wld f = (case fds wld f of None \<Rightarrow> False | Some h \<Rightarrow> is_open h)"

definition contents :: "world \<Rightarrow> path \<Rightarrow> bytes option" where
  "contents wld p = map_option (inodes wld) (names wld p)"

definition handle_data :: "world \<Rightarrow> fd \<Rightarrow> bytes" where
  "handle_data wld f = (case fds wld f of None \<Rightarrow> [] | Some h \<Rightarrow> inodes wld (ino h))"

definition on_disk :: "world \<Rightarrow> path \<Rightarrow> bool" where
  "on_disk wld p = (names wld p \<noteq> None)"

definition rollingfilelist_of :: "rolling \<Rightarrow> path list" where
  "rollingfilelist_of rw =
     (case rw of
        RW_none w \<Rightarrow> rollingfilelist w
      | RW_lock w \<Rightarrow> rollingfilelist w
      | RW_async a \<Rightarrow> rollingfilelist a
      | RW_buffer w \<Rightarrow> rollingfilelist w)"

section \<open>Predicates on states\<close>

text \<open>
  \<open>stuck i g wld\<close>: the goroutine \<open>i\<close> is \<open>g\<close>, blocked in the send on the
  retention channel.
\<close>

definition stuck :: "nat \<Rightarrow> completion \<Rightarrow> world \<Rightarrow> bool" where
  "stuck i g wld = (i < length (gos wld) \<and> gos wld ! i = g \<and> g_pc g = At_send)"

text \<open>
  The worker holds no chunk: it is at its \<open>select\<close> or has returned. An
  interleaving is quiet when the worker is not scheduled between the compare-and-swap
  and \<open>close(w.ctx)\<close> and every later \<open>select\<close> of the worker takes \<open><-w.ctx\<close>.
\<close>

definition idle :: "AsynchronousWriter \<Rightarrow> bool" where
  "idle a = (worker a = W_select \<or> worker a = W_returned)"

definition quiet :: "interleaving \<Rightarrow> bool" where
  "quiet il =
     (case il of
        (ws0, s, ws9) \<Rightarrow>
          ws0 = []
          \<and> list_all (\<lambda>(ws1, ws2). list_all (\<lambda>c. c) ws1 \<and> list_all (\<lambda>c. c) ws2) s
          \<and> list_all (\<lambda>c. c) ws9)"

text \<open>
  What a buffered writer keeps between two calls of a single caller when no trigger
  arrives and no call of the operating system fails.
\<close>

definition buffer_inv :: "BufferWriter \<Rightarrow> world \<Rightarrow> bool" where
  "buffer_inv w wld =
     (fire w = [] \<and> swaping w = 0 \<and> handle_open wld (file_fd w) \<and> faults wld = []
      \<and> makeslice_ok 1 (BufferWriterThershould (cf w) * 10))"

section \<open>Concrete inputs\<close>

text \<open>
  The inputs at which the theorems below are instantiated: small values for the
  constants, a toy encoder that puts the two magic bytes of gzip in front of its input,
  and a configuration with \<open>MaxRemain = 2\<close> in the directory \<open>d\<close>.
\<close>

definition ex_externs :: externs where
  "ex_externs =
     \<lparr>BufferSize = 4, QueueSize = 8,
      LogFilePath = (\<lambda>c. LogPath c @ ''/'' @ FileName c @ ''.log''),
      NewManager = (\<lambda>c. None),
      gzip = (\<lambda>b. [0x1f, 0x8b] @ b)\<rparr>"

definition ex_config :: "string \<Rightarrow> bool \<Rightarrow> Config" where
  "ex_config m z =
     \<lparr>LogPath = ''d'', FileName = ''a'', WriterMode = m, MaxRemain = 2, Compress = z,
      BufferWriterThershould = 3\<rparr>"

text \<open>The writer of mode \<open>m\<close> built in the empty world with the script of outcomes \<open>fs\<close>.\<close>

definition ex_new :: "string \<Rightarrow> bool \<Rightarrow> outcome list \<Rightarrow> (error + rolling) \<times> world" where
  "ex_new m z fs = NewWriterFromConfig ex_externs (ex_config m z) (world0\<lparr>faults := fs\<rparr>)"

text \<open>One rotation to \<open>p\<close> as the \<open>i\<close>-th: trigger, write, completion, retention, completion.\<close>

definition ex_rotation :: "path \<Rightarrow> nat \<Rightarrow> action list" where
  "ex_rotation p i = [Fire p, Call_Write [1] False, Go_completion i, Go_AutoRemove, Go_completion i]"

text \<open>
  The state that \<open>NewWriterFromConfig\<close> reaches from the empty world with these inputs:
  the embedded \<open>Writer\<close> and the world, with the outcomes \<open>fs\<close> still to come.
\<close>

definition ex_writer :: "string \<Rightarrow> bool \<Rightarrow> nat list option \<Rightarrow> Writer" where
  "ex_writer m z ch =
     \<lparr>file_fd = 0, absPath = ''d/a.log'', fire = [], cf = ex_config m z,
      rollingfilelist = [], fileCh = ch\<rparr>"

definition ex_world :: "bool \<Rightarrow> outcome list \<Rightarrow> world" where
  "ex_world ar fs =
     \<lparr>names = [''d/a.log'' \<mapsto> 0], inodes = (\<lambda>i. [])(0 := []), next_ino = 1,
      fds = [0 \<mapsto> \<lparr>ino = 0, offset = 0, is_open = True\<rparr>], next_fd = 1,
      faults = fs, logged = [], gos = [], autoremove = ar, pool = []\<rparr>"

definition ex_async :: AsynchronousWriter where
  "ex_async =
     Writer.extend (ex_writer ''async'' False None)
       (AsynchronousWriter.fields False [] 0 0 W_select)"

definition ex_buffer :: BufferWriter where
  "ex_buffer = Writer.extend (ex_writer ''buffer'' False None) (BufferWriter.fields [] 0 0)"

section \<open>Shared facts\<close>

lemmas os_defs = next_fault_def os_Rename_def os_OpenFile_def os_Remove_def file_Write_def file_Close_def
  file_Seek0_def log_Println_def os_MkdirAll_def

lemmas writer_defs = Writer_Write_def LockedWriter_Write_def Writer_Close_def LockedWriter_Close_def
  Reopen_def spawn_def completion_step_def set_pc_def arrive_def AutoRemove_step_def AutoRemove_received_def

lemmas step_defs = step_def step_none_def step_lock_def step_async_def step_buffer_def

lemmas ex_defs = ex_new_def ex_externs_def ex_config_def ex_rotation_def world0_def
  NewWriterFromConfig_def makeslice_ok_def ex_writer_def ex_world_def ex_async_def ex_buffer_def
  Writer.defs AsynchronousWriter.defs BufferWriter.defs

lemmas obs_defs = on_disk_def handle_open_def handle_data_def contents_def fileCh_of_def file_of_def
  rollingfilelist_of_def

text \<open>The example states are the ones the constructor builds.\<close>

lemma ex_new_none: "ex_new ''none'' z [] = (Inr (RW_none (ex_writer ''none'' z None)), ex_world True [])"
  by (simp add: ex_defs os_defs Let_def)

lemma ex_new_lock: "ex_new ''lock'' z [] = (Inr (RW_lock (ex_writer ''lock'' z (Some []))), ex_world True [])"
  by (simp add: ex_defs os_defs Let_def)

lemma ex_new_async: "ex_new ''async'' False [] = (Inr (RW_async ex_async), ex_world False [])"
  by (simp add: ex_defs os_defs Let_def)

lemma ex_new_buffer: "ex_new ''buffer'' False [] = (Inr (RW_buffer ex_buffer), ex_world True [])"
  by (simp add: ex_defs os_defs Let_def)

text \<open>A consumed outcome changes nothing but the script.\<close>

lemma next_fault_frame:
  "next_fault wld = (r, wld1) \<Longrightarrow>
     names wld1 = names wld \<and> inodes wld1 = inodes wld \<and> fds wld1 = fds wld \<and> gos wld1 = gos wld
     \<and> next_ino wld1 = next_ino wld \<and> next_fd wld1 = next_fd wld \<and> logged wld1 = logged wld
     \<and> autoremove wld1 = autoremove wld \<and> pool wld1 = pool wld"
  by (auto simp: next_fault_def split: list.splits)

section \<open>Reopen after a failed rename\<close>

lemma os_Rename_failure_frame:
  assumes "os_Rename p q wld = (Some err, wld1)"
  shows "names wld1 = names wld \<and> inodes wld1 = inodes wld \<and> fds wld1 = fds wld \<and> gos wld1 = gos wld"
  using assms
  by (auto simp: os_Rename_def split: prod.splits outcome.splits option.splits dest: next_fault_frame)

text \<open>
  C3. If the rename of the current file to the destination path fails, \<open>Reopen\<close> returns
  that error and gives back the writer as it was: the same handle in \<open>file\<close>, no new
  goroutine, and a world in which the table of handles, the directory and the contents
  of the files are those from before the call.
\<close>

theorem Reopen_rename_failure:
  assumes "os_Rename (absPath w) dest wld = (Some err, wld1)"
  shows "Reopen dest w wld = (Some err, w, wld1)
         \<and> gos wld1 = gos wld \<and> fds wld1 = fds wld
         \<and> names wld1 = names wld \<and> inodes wld1 = inodes wld"
  using assms os_Rename_failure_frame [OF assms] by (simp add: Reopen_def)

theorem Reopen_rename_failure_witness:
  "os_Rename (absPath (ex_writer ''lock'' False (Some []))) ''r1'' (ex_world True [Fail 0])
     = (Some EIO, ex_world True [])
   \<and> Reopen ''r1'' (ex_writer ''lock'' False (Some [])) (ex_world True [Fail 0])
     = (Some EIO, ex_writer ''lock'' False (Some []), ex_world True [])
   \<and> gos (ex_world True []) = gos (ex_world True [Fail 0])
   \<and> fds (ex_world True []) = fds (ex_world True [Fail 0])
   \<and> handle_open (ex_world True []) (file_fd (ex_writer ''lock'' False (Some [])))"
proof -
  have h: "os_Rename (absPath (ex_writer ''lock'' False (Some []))) ''r1'' (ex_world True [Fail 0])
             = (Some EIO, ex_world True [])"
    by (simp add: os_defs ex_writer_def ex_world_def)
  have o: "handle_open (ex_world True []) (file_fd (ex_writer ''lock'' False (Some [])))"
    by (simp add: handle_open_def ex_writer_def ex_world_def)
  show ?thesis using h o Reopen_rename_failure [OF h] by simp
qed

section \<open>The retention channel of the four modes\<close>

lemma Reopen_fileCh: "Reopen dest w wld = (r, w1, wld1) \<Longrightarrow> fileCh w1 = fileCh w"
  by (auto simp: Reopen_def split: prod.splits option.splits sum.splits)

lemma completion_step_nil: "fileCh w = None \<Longrightarrow> fileCh (fst (completion_step X i w wld)) = None"
  by (simp add: completion_step_def arrive_def Let_def split: pc.splits prod.splits option.splits)

lemma AutoRemove_step_nil: "fileCh w = None \<Longrightarrow> fileCh (fst (AutoRemove_step w wld)) = None"
  by (simp add: AutoRemove_step_def)

lemma Writer_Write_fileCh: "fileCh (fst (snd (Writer_Write b w wld))) = fileCh w"
  by (auto simp: Writer_Write_def split: list.splits prod.splits option.splits dest: Reopen_fileCh)

lemma LockedWriter_Write_fileCh: "fileCh (fst (snd (LockedWriter_Write b w wld))) = fileCh w"
  by (auto simp: LockedWriter_Write_def split: list.splits prod.splits option.splits dest: Reopen_fileCh)

lemma BufferWriter_Write_fileCh: "fileCh (fst (snd (BufferWriter_Write b w wld))) = fileCh w"
  by (auto simp: BufferWriter_Write_def Let_def split: list.splits prod.splits option.splits dest: Reopen_fileCh)

lemma Write_fire_fileCh: "fileCh (fst (snd (Write_fire X p b a wld))) = fileCh a"
  by (auto simp: Write_fire_def split: prod.splits option.splits bool.splits dest: Reopen_fileCh)

lemma AsynchronousWriter_Write_fileCh:
  "fileCh (fst (snd (AsynchronousWriter_Write X ch b a wld))) = fileCh a"
  by (simp add: AsynchronousWriter_Write_def Write_fire_fileCh Write_errChan_def Write_default_def Let_def
      split: worker.splits list.splits prod.splits)

lemma worker_step_fileCh: "fileCh (fst (worker_step ch a wld)) = fileCh a"
  by (simp add: worker_step_def split: worker.splits list.splits prod.splits option.splits)

lemma worker_steps_fileCh: "fileCh (fst (worker_steps cs a wld)) = fileCh a"
  by (induction cs arbitrary: a wld) (simp_all add: case_prod_beta worker_step_fileCh)

lemma onClose_sched_fileCh: "fileCh (fst (onClose_sched s a wld)) = fileCh a"
proof (induction s arbitrary: a wld)
  case Nil
  then show ?case by (simp add: onClose_def case_prod_beta)
next
  case (Cons p s)
  show ?case
    by (cases p)
       (simp add: Cons.IH case_prod_beta worker_steps_fileCh split: list.splits option.splits)
qed

lemma AsynchronousWriter_Close_fileCh: "fileCh (fst (snd (AsynchronousWriter_Close il a wld))) = fileCh a"
  by (cases il)
     (simp add: AsynchronousWriter_Close_def case_prod_beta worker_steps_fileCh onClose_sched_fileCh)

lemma step_nil: "fileCh_of (fst s) = None \<Longrightarrow> fileCh_of (fst (step X act s)) = None"
  apply (cases s; cases "fst s"; cases act)
  apply (simp_all add: step_defs fileCh_of_def
      Writer_Write_fileCh LockedWriter_Write_fileCh BufferWriter_Write_fileCh AsynchronousWriter_Write_fileCh
      AsynchronousWriter_Close_fileCh worker_step_fileCh completion_step_nil AutoRemove_step_nil
      Writer_Close_def LockedWriter_Close_def BufferWriter_Close_def errChan_receive_def case_prod_beta
      split: worker.splits)
  done

lemma run_nil: "fileCh_of (fst s) = None \<Longrightarrow> fileCh_of (fst (run X acts s)) = None"
  by (induction acts arbitrary: s) (simp_all add: step_nil)

lemma NewWriterFromConfig_fileCh:
  assumes "NewWriterFromConfig X c wld = (Inr rw, wld1)"
  shows "fileCh_of rw = (if WriterMode c = ''lock'' then Some [] else None)"
  using assms
  by (auto simp: NewWriterFromConfig_def Let_def fileCh_of_def Writer.defs AsynchronousWriter.defs BufferWriter.defs
      split: if_splits prod.splits option.splits sum.splits)

text \<open>
  C10. A writer that \<open>NewWriterFromConfig\<close> returns for the mode "none", "async" or
  "buffer" has the nil channel in \<open>fileCh\<close>, and it still has it after any sequence of
  triggers, calls of \<open>Write\<close> and \<open>Close\<close>, and schedulings of the goroutines; the
  constructor returns a writer with a channel in \<open>fileCh\<close> exactly for the mode "lock".
\<close>

theorem fileCh_nil_unless_lock:
  assumes "NewWriterFromConfig X c wld = (Inr rw, wld1)"
  shows "(WriterMode c \<in> {''none'', ''async'', ''buffer''} \<longrightarrow>
            fileCh_of rw = None \<and> (\<forall>acts. fileCh_of (fst (run X acts (rw, wld1))) = None))
         \<and> (fileCh_of rw \<noteq> None \<longleftrightarrow> WriterMode c = ''lock'')"
proof -
  have ch: "fileCh_of rw = (if WriterMode c = ''lock'' then Some [] else None)"
    using assms by (rule NewWriterFromConfig_fileCh)
  have "fileCh_of (fst (run X acts (rw, wld1))) = None" if "fileCh_of rw = None" for acts
    using that run_nil [of "(rw, wld1)" X acts] by simp
  with ch show ?thesis by auto
qed

theorem fileCh_nil_unless_lock_witness:
  "NewWriterFromConfig ex_externs (ex_config ''none'' False) (world0\<lparr>faults := []\<rparr>)
     = (Inr (RW_none (ex_writer ''none'' False None)), ex_world True [])
   \<and> WriterMode (ex_config ''none'' False) \<in> {''none'', ''async'', ''buffer''}
   \<and> fileCh_of (RW_none (ex_writer ''none'' False None)) = None
   \<and> fileCh_of (fst (run ex_externs (ex_rotation ''r1'' 0)
                        (RW_none (ex_writer ''none'' False None), ex_world True []))) = None
   \<and> NewWriterFromConfig ex_externs (ex_config ''lock'' False) (world0\<lparr>faults := []\<rparr>)
     = (Inr (RW_lock (ex_writer ''lock'' False (Some []))), ex_world True [])
   \<and> WriterMode (ex_config ''lock'' False) = ''lock''
   \<and> fileCh_of (RW_lock (ex_writer ''lock'' False (Some []))) \<noteq> None"
proof -
  have n: "NewWriterFromConfig ex_externs (ex_config ''none'' False) (world0\<lparr>faults := []\<rparr>)
             = (Inr (RW_none (ex_writer ''none'' False None)), ex_world True [])"
    using ex_new_none [of False] by (simp add: ex_new_def)
  have l: "NewWriterFromConfig ex_externs (ex_config ''lock'' False) (world0\<lparr>faults := []\<rparr>)
             = (Inr (RW_lock (ex_writer ''lock'' False (Some []))), ex_world True [])"
    using ex_new_lock [of False] by (simp add: ex_new_def)
  have m: "WriterMode (ex_config ''none'' False) \<in> {''none'', ''async'', ''buffer''}"
          "WriterMode (ex_config ''lock'' False) = ''lock''"
    by (simp_all add: ex_config_def)
  show ?thesis
    using n l m fileCh_nil_unless_lock [OF n] fileCh_nil_unless_lock [OF l] by simp
qed

section \<open>Undisturbed writes and closes\<close>

text \<open>A write that the script does not disturb appends its bytes and keeps the handle open.\<close>

lemma file_Write_ok:
  assumes "handle_open wld f" and "\<forall>x\<in>set (take 1 (faults wld)). x = Succeed"
  shows "fst (file_Write f b wld) = (length b, None)"
    and "handle_data (snd (file_Write f b wld)) f = handle_data wld f @ b"
    and "handle_open (snd (file_Write f b wld)) f"
    and "faults (snd (file_Write f b wld)) = tl (faults wld)"
    and "pool (snd (file_Write f b wld)) = pool wld"
  using assms
  by (auto simp: file_Write_def handle_open_def handle_data_def next_fault_def Let_def
      split: option.splits list.splits outcome.splits)

lemma pool_Put_obs:
  "handle_data (pool_Put b wld) f = handle_data wld f"
  "handle_open (pool_Put b wld) f = handle_open wld f"
  "faults (pool_Put b wld) = faults wld"
  by (simp_all add: pool_Put_def handle_data_def handle_open_def split: option.splits)

lemma file_Close_ok:
  assumes "handle_open wld f"
  shows "fst (file_Close f wld) = None"
    and "\<not> handle_open (snd (file_Close f wld)) f"
    and "handle_data (snd (file_Close f wld)) f = handle_data wld f"
  using assms
  by (auto simp: file_Close_def handle_open_def handle_data_def split: option.splits)

lemma run_append: "run X (xs @ ys) s = run X ys (run X xs s)"
  by (induction xs arbitrary: s) simp_all

section \<open>Retention\<close>

lemma evict_list:
  "0 \<le> sint k \<Longrightarrow> fst (evict k l wld) = drop (length l - nat (sint k)) l"
proof (induction l arbitrary: wld)
  case Nil
  then show ?case by simp
next
  case (Cons f fs)
  show ?case
  proof (cases "int (length (f # fs)) > sint k")
    case True
    then have "Suc (length fs) - nat (sint k) = Suc (length fs - nat (sint k))"
      using Cons.prems by auto
    then show ?thesis
      using True Cons.prems Cons.IH by (simp split: prod.splits option.splits)
  next
    case False
    then have "length (f # fs) - nat (sint k) = 0" by auto
    with False show ?thesis by simp
  qed
qed

lemma os_Remove_quiet:
  assumes "faults wld = []"
  shows "names (snd (os_Remove f wld)) = (names wld)(f := None)"
    and "faults (snd (os_Remove f wld)) = []"
  using assms by (auto simp: os_Remove_def next_fault_def split: option.splits)

lemma evict_names:
  assumes "0 \<le> sint k" and "faults wld = []"
  shows "names (snd (evict k l wld)) p
           = (if p \<in> set (take (length l - nat (sint k)) l) then None else names wld p)
         \<and> faults (snd (evict k l wld)) = []"
  using assms
proof (induction l arbitrary: wld)
  case Nil
  then show ?case by simp
next
  case (Cons f fs)
  show ?case
  proof (cases "int (length (f # fs)) > sint k")
    case True
    then have s: "Suc (length fs) - nat (sint k) = Suc (length fs - nat (sint k))"
      using Cons.prems by auto
    obtain r wld1 where rm: "os_Remove f wld = (r, wld1)" by (cases "os_Remove f wld")
    with os_Remove_quiet [OF Cons.prems(2), of f]
    have n1: "names wld1 = (names wld)(f := None)" and f1: "faults wld1 = []" by simp_all
    show ?thesis
    proof (cases r)
      case None
      with True Cons.prems rm have "evict k (f # fs) wld = evict k fs wld1" by simp
      with Cons.IH [OF Cons.prems(1) f1] n1 s show ?thesis by simp
    next
      case (Some err)
      let ?w = "log_Println ''error in auto remove log file'' err wld1"
      have n2: "names ?w = (names wld)(f := None)" and f2: "faults ?w = []"
        using n1 f1 by (simp_all add: log_Println_def)
      from Some True Cons.prems rm have "evict k (f # fs) wld = evict k fs ?w" by simp
      with Cons.IH [OF Cons.prems(1) f2] n2 s show ?thesis by simp
    qed
  next
    case False
    then have "length (f # fs) - nat (sint k) = 0" by auto
    with False Cons.prems show ?thesis by simp
  qed
qed

lemma drop_app_le: "m \<le> length xs \<Longrightarrow> drop m xs @ ys = drop m (xs @ ys)"
  by simp

lemma take_app_le: "m \<le> length xs \<Longrightarrow> take m xs = take m (xs @ ys)"
  by simp

lemma retained_after_one:
  fixes K :: nat and l :: "'a list" and f :: 'a and fs :: "'a list"
  assumes "length l \<le> K"
  defines "m \<equiv> length (l @ [f]) - K"
  defines "l1 \<equiv> drop m (l @ [f])"
  shows "length l1 \<le> K"
    and "drop (length (l1 @ fs) - K) (l1 @ fs) = drop (length (l @ f # fs) - K) (l @ f # fs)"
    and "set (take m (l @ [f])) \<union> set (take (length (l1 @ fs) - K) (l1 @ fs))
           = set (take (length (l @ f # fs) - K) (l @ f # fs))"
proof -
  have m: "m \<le> length (l @ [f])" by (simp add: m_def)
  show "length l1 \<le> K" using assms(1) by (simp add: l1_def m_def)
  have app: "l1 @ fs = drop m (l @ f # fs)"
    unfolding l1_def using drop_app_le [OF m, of fs] by (simp only: append_assoc append_Cons append_Nil)
  have tk: "take m (l @ [f]) = take m (l @ f # fs)"
    using take_app_le [OF m, of fs] by (simp only: append_assoc append_Cons append_Nil)
  have ll: "length l1 = Suc (length l) - m" by (simp add: l1_def)
  have idx: "length (l @ f # fs) - K = m + (length (l1 @ fs) - K)"
    using ll assms(1) by (simp add: m_def) 
  show "drop (length (l1 @ fs) - K) (l1 @ fs) = drop (length (l @ f # fs) - K) (l @ f # fs)"
    unfolding idx app drop_drop by (simp only: add.commute)
  have "take (m + (length (l1 @ fs) - K)) (l @ f # fs)
          = take m (l @ f # fs) @ take (length (l1 @ fs) - K) (drop m (l @ f # fs))"
    by (rule take_add)
  then show "set (take m (l @ [f])) \<union> set (take (length (l1 @ fs) - K) (l1 @ fs))
           = set (take (length (l @ f # fs) - K) (l @ f # fs))"
    unfolding idx tk app by (simp only: set_append)
qed

lemma if_if_None: "(if a then None else if b then None else x) = (if b \<or> a then None else x)"
  by simp

lemma AutoRemove_all_spec:
  assumes "0 \<le> sint (MaxRemain (cf w))"
    and "length (rollingfilelist w) \<le> nat (sint (MaxRemain (cf w)))"
    and "faults wld = []"
  shows "rollingfilelist (fst (AutoRemove_all fs w wld))
           = drop (length (rollingfilelist w @ fs) - nat (sint (MaxRemain (cf w)))) (rollingfilelist w @ fs)
         \<and> names (snd (AutoRemove_all fs w wld)) p
           = (if p \<in> set (take (length (rollingfilelist w @ fs) - nat (sint (MaxRemain (cf w))))
                              (rollingfilelist w @ fs))
              then None else names wld p)"
  using assms
proof (induction fs arbitrary: w wld)
  case Nil
  then show ?case by simp
next
  case (Cons f fs)
  let ?K = "nat (sint (MaxRemain (cf w)))"
  let ?l = "rollingfilelist w"
  let ?m = "length (?l @ [f]) - ?K"
  let ?e = "evict (MaxRemain (cf w)) (?l @ [f]) wld"
  let ?w1 = "w\<lparr>rollingfilelist := fst ?e\<rparr>"
  have st: "AutoRemove_received f w wld = (?w1, snd ?e)"
    by (simp add: AutoRemove_received_def case_prod_beta)
  have l1: "rollingfilelist ?w1 = drop ?m (?l @ [f])"
    using evict_list [OF Cons.prems(1)] by simp
  note n1 = evict_names [OF Cons.prems(1,3), of "?l @ [f]"]
  note one = retained_after_one(1) [OF Cons.prems(2), of f, folded l1]
    retained_after_one(2) [OF Cons.prems(2), of f fs, folded l1]
    retained_after_one(3) [OF Cons.prems(2), of f fs, folded l1]
  have c1: "cf ?w1 = cf w" by simp
  have pos1: "0 \<le> sint (MaxRemain (cf ?w1))" using Cons.prems(1) by simp
  have len1: "length (rollingfilelist ?w1) \<le> nat (sint (MaxRemain (cf ?w1)))"
    using one(1) by (simp only: c1)
  have f1: "faults (snd ?e) = []" using n1 by simp
  note ih = Cons.IH [OF pos1 len1 f1, unfolded c1]
  have res: "AutoRemove_all (f # fs) w wld = AutoRemove_all fs ?w1 (snd ?e)"
    using st by simp
  have A: "rollingfilelist (fst (AutoRemove_all (f # fs) w wld))
             = drop (length (?l @ f # fs) - ?K) (?l @ f # fs)"
    using ih one(2) by (simp only: res)
  have B: "names (snd (AutoRemove_all (f # fs) w wld)) p
             = (if p \<in> set (take (length (?l @ f # fs) - ?K) (?l @ f # fs)) then None else names wld p)"
    unfolding res ih [THEN conjunct2] n1 [THEN conjunct1] one(3) [symmetric] Un_iff
    by (rule if_if_None)
  from A B show ?case by simp
qed

lemma filter_not_in_take:
  assumes "distinct fs"
  shows "filter (\<lambda>p. p \<notin> set (take n fs)) fs = drop n fs"
proof -
  have d: "distinct (take n fs @ drop n fs)" using assms by simp
  then have i: "set (take n fs) \<inter> set (drop n fs) = {}" by (simp only: distinct_append)
  have e: "filter (\<lambda>p. p \<notin> set (take n fs)) (take n fs) = []" by simp
  have k: "filter (\<lambda>p. p \<notin> set (take n fs)) (drop n fs) = drop n fs"
    using i by (intro filter_True) auto
  have "filter (\<lambda>p. p \<notin> set (take n fs)) (take n fs @ drop n fs) = drop n fs"
    by (simp only: filter_append e k append_Nil)
  then show ?thesis unfolding append_take_drop_id .
qed

text \<open>
  C1, as the code has it. Let \<open>AutoRemove\<close> receive the distinct paths \<open>fs\<close>, all on
  disk, starting from the empty list, with \<open>MaxRemain = k \<ge> 0\<close> and no call failing.
  Then the list it keeps and the files of \<open>fs\<close> still on disk are the last
  \<open>min (length fs) k\<close> of \<open>fs\<close>: the \<open>k\<close> most recent, not \<open>k + 1\<close>.
\<close>

theorem AutoRemove_keeps_MaxRemain:
  assumes "0 \<le> sint (MaxRemain (cf w))"
    and "rollingfilelist w = []"
    and "distinct fs"
    and "\<forall>f\<in>set fs. on_disk wld f"
    and "faults wld = []"
  shows "rollingfilelist (fst (AutoRemove_all fs w wld))
           = drop (length fs - nat (sint (MaxRemain (cf w)))) fs
         \<and> filter (on_disk (snd (AutoRemove_all fs w wld))) fs
           = drop (length fs - nat (sint (MaxRemain (cf w)))) fs
         \<and> length (filter (on_disk (snd (AutoRemove_all fs w wld))) fs)
           = min (length fs) (nat (sint (MaxRemain (cf w))))"
proof -
  let ?n = "length fs - nat (sint (MaxRemain (cf w)))"
  have len: "length (rollingfilelist w) \<le> nat (sint (MaxRemain (cf w)))" using assms(2) by simp
  note sp = AutoRemove_all_spec [OF assms(1) len assms(5), of fs]
  have l: "rollingfilelist (fst (AutoRemove_all fs w wld)) = drop ?n fs"
    using sp assms(2) by simp
  have "filter (on_disk (snd (AutoRemove_all fs w wld))) fs = filter (\<lambda>p. p \<notin> set (take ?n fs)) fs"
  proof (rule filter_cong [OF refl])
    fix p assume "p \<in> set fs"
    with assms(4) have "names wld p \<noteq> None" by (simp add: on_disk_def)
    with sp [of p] assms(2) show "on_disk (snd (AutoRemove_all fs w wld)) p = (p \<notin> set (take ?n fs))"
      by (simp add: on_disk_def)
  qed
  then have d: "filter (on_disk (snd (AutoRemove_all fs w wld))) fs = drop ?n fs"
    using filter_not_in_take [OF assms(3)] by simp
  from l d show ?thesis by auto
qed

theorem AutoRemove_keeps_MaxRemain_witness:
  "0 \<le> sint (MaxRemain (cf (ex_writer ''lock'' False (Some []))))
   \<and> rollingfilelist (ex_writer ''lock'' False (Some [])) = []
   \<and> distinct [''r1'', ''r2'', ''r3'', ''r4'']
   \<and> list_all (on_disk ((ex_world True [])\<lparr>names := [''r1'' \<mapsto> 1, ''r2'' \<mapsto> 2, ''r3'' \<mapsto> 3, ''r4'' \<mapsto> 4]\<rparr>))
         [''r1'', ''r2'', ''r3'', ''r4'']
   \<and> faults ((ex_world True [])\<lparr>names := [''r1'' \<mapsto> 1, ''r2'' \<mapsto> 2, ''r3'' \<mapsto> 3, ''r4'' \<mapsto> 4]\<rparr>) = []
   \<and> rollingfilelist (fst (AutoRemove_all [''r1'', ''r2'', ''r3'', ''r4''] (ex_writer ''lock'' False (Some []))
         ((ex_world True [])\<lparr>names := [''r1'' \<mapsto> 1, ''r2'' \<mapsto> 2, ''r3'' \<mapsto> 3, ''r4'' \<mapsto> 4]\<rparr>)))
       = [''r3'', ''r4'']
   \<and> filter (on_disk (snd (AutoRemove_all [''r1'', ''r2'', ''r3'', ''r4''] (ex_writer ''lock'' False (Some []))
         ((ex_world True [])\<lparr>names := [''r1'' \<mapsto> 1, ''r2'' \<mapsto> 2, ''r3'' \<mapsto> 3, ''r4'' \<mapsto> 4]\<rparr>))))
         [''r1'', ''r2'', ''r3'', ''r4'']
       = [''r3'', ''r4'']"
proof -
  let ?w = "ex_writer ''lock'' False (Some [])"
  let ?wld = "(ex_world True [])\<lparr>names := [''r1'' \<mapsto> 1, ''r2'' \<mapsto> 2, ''r3'' \<mapsto> 3, ''r4'' \<mapsto> 4]\<rparr>"
  let ?fs = "[''r1'', ''r2'', ''r3'', ''r4'']"
  have k: "sint (MaxRemain (cf ?w)) = 2" by (simp add: ex_writer_def ex_config_def)
  have h1: "0 \<le> sint (MaxRemain (cf ?w))" by (simp add: k)
  have h2: "rollingfilelist ?w = []" by (simp add: ex_writer_def)
  have h3: "distinct ?fs" by simp
  have h4: "\<forall>f\<in>set ?fs. on_disk ?wld f" by (simp add: on_disk_def)
  have h5: "faults ?wld = []" by (simp add: ex_world_def)
  show ?thesis
    using h1 h2 h3 h4 h5 AutoRemove_keeps_MaxRemain [OF h1 h2 h3 h4 h5] by (simp add: k)
qed

text \<open>
  C1 as stated fails at \<open>MaxRemain = 2\<close> with four rotations, each followed by its
  completion and its retention step: the writer of mode "lock" is left with the two
  files \<open>r3\<close> and \<open>r4\<close>, and the writer of mode "none", whose retention channel is nil,
  with all four. Neither has three.
\<close>

theorem four_rotations_counterexample:
  "(case ex_new ''lock'' False [] of
      (Inr rw, wld) \<Rightarrow>
        (case run ex_externs
                (ex_rotation ''r1'' 0 @ ex_rotation ''r2'' 1 @ ex_rotation ''r3'' 2 @ ex_rotation ''r4'' 3)
                (rw, wld) of
           (rw1, wld1) \<Rightarrow>
             filter (on_disk wld1) [''r1'', ''r2'', ''r3'', ''r4''] = [''r3'', ''r4'']
             \<and> rollingfilelist_of rw1 = [''r3'', ''r4'']
             \<and> map g_pc (gos wld1) = [Finished, Finished, Finished, Finished]
             \<and> length (filter (on_disk wld1) [''r1'', ''r2'', ''r3'', ''r4''])
                 \<noteq> min 4 (nat (sint (MaxRemain (ex_config ''lock'' False))) + 1))
    | (Inl e, wld) \<Rightarrow> False)
   \<and> (case ex_new ''none'' False [] of
      (Inr rw, wld) \<Rightarrow>
        (case run ex_externs
                (ex_rotation ''r1'' 0 @ ex_rotation ''r2'' 1 @ ex_rotation ''r3'' 2 @ ex_rotation ''r4'' 3)
                (rw, wld) of
           (rw1, wld1) \<Rightarrow>
             filter (on_disk wld1) [''r1'', ''r2'', ''r3'', ''r4''] = [''r1'', ''r2'', ''r3'', ''r4'']
             \<and> rollingfilelist_of rw1 = []
             \<and> length (filter (on_disk wld1) [''r1'', ''r2'', ''r3'', ''r4''])
                 \<noteq> min 4 (nat (sint (MaxRemain (ex_config ''none'' False))) + 1))
    | (Inl e, wld) \<Rightarrow> False)"
  by (simp add: ex_defs os_defs writer_defs step_defs obs_defs Let_def)

section \<open>The completion goroutine on the nil channel\<close>

text \<open>Only \<open>Reopen\<close> and the goroutines themselves touch the list of goroutines.\<close>

lemma gos_os:
  "gos (snd (next_fault wld)) = gos wld"
  "gos (snd (os_Rename p q wld)) = gos wld"
  "gos (snd (os_OpenFile p wld)) = gos wld"
  "gos (snd (os_Remove p wld)) = gos wld"
  "gos (snd (file_Write f b wld)) = gos wld"
  "gos (snd (file_Close f wld)) = gos wld"
  "gos (snd (file_Seek0 f wld)) = gos wld"
  "gos (log_Println msg e wld) = gos wld"
  "gos (pool_Put b wld) = gos wld"
  "gos (snd (pool_Get X wld)) = gos wld"
  by (simp_all add: os_defs pool_Put_def pool_Get_def Let_def
      split: list.splits outcome.splits option.splits prod.splits)

lemma gos_io_Copy: "gos (snd (io_Copy gw f wld)) = gos wld"
  by (simp add: io_Copy_def next_fault_def Let_def split: list.splits outcome.splits option.splits prod.splits)

lemma gos_gzip_Close: "gos (gzip_Close X gw wld) = gos wld"
  by (simp add: gzip_Close_def gos_os)

lemma gos_CompressFile: "gos (snd (CompressFile X f p wld)) = gos wld"
  by (simp add: CompressFile_def Let_def case_prod_beta gos_os gos_io_Copy gos_gzip_Close
      split: sum.splits option.splits)

lemma gos_evict: "gos (snd (evict k l wld)) = gos wld"
  by (induction l arbitrary: wld) (simp_all add: case_prod_beta gos_os split: option.splits)

lemma gos_onClose_loop: "gos (snd (snd (onClose_loop f q r wld))) = gos wld"
  by (induction q arbitrary: r wld) (simp_all add: case_prod_beta gos_os split: option.splits)

lemma gos_enqueue_chunks: "gos (snd (snd (enqueue_chunks X b q wld))) = gos wld"
proof (induction X b q wld rule: enqueue_chunks.induct)
  case (1 X b q wld)
  obtain pbuf wld1 where g: "pool_Get X wld = (pbuf, wld1)" by (cases "pool_Get X wld")
  with gos_os(10) [of X wld] have e: "gos wld1 = gos wld" by simp
  show ?case
  proof (cases "b \<noteq> [] \<and> length q < QueueSize X")
    case True
    with g "1.IH" [of pbuf wld1 "min (length pbuf) (length b)"] e show ?thesis
      by (subst enqueue_chunks.simps) (simp add: Let_def)
  next
    case False
    with g e show ?thesis
      by (subst enqueue_chunks.simps) (auto simp: Let_def)
  qed
qed

lemma stuck_spawn: "stuck i g wld \<Longrightarrow> stuck i g (spawn g1 wld)"
  by (simp add: stuck_def spawn_def nth_append)

lemma stuck_set_pc: "stuck i g wld \<Longrightarrow> j \<noteq> i \<Longrightarrow> stuck i g (set_pc j p wld)"
  by (simp add: stuck_def set_pc_def)

lemma stuck_Reopen:
  assumes "stuck i g wld"
  shows "stuck i g (snd (snd (Reopen dest w wld)))"
proof -
  obtain r1 wld1 where r: "os_Rename (absPath w) dest wld = (r1, wld1)"
    by (cases "os_Rename (absPath w) dest wld")
  with gos_os(2) [of "absPath w" dest wld] assms have s1: "stuck i g wld1"
    by (simp add: stuck_def)
  obtain r2 wld2 where o: "os_OpenFile (absPath w) wld1 = (r2, wld2)"
    by (cases "os_OpenFile (absPath w) wld1")
  with gos_os(3) [of "absPath w" wld1] s1 have s2: "stuck i g wld2"
    by (simp add: stuck_def)
  show ?thesis
  proof (cases r1)
    case (Some err)
    with r s1 show ?thesis by (simp add: Reopen_def)
  next
    case None
    with r o s2 show ?thesis
      by (cases r2) (simp_all add: Reopen_def stuck_spawn)
  qed
qed

lemma stuck_completion_step:
  assumes "stuck i g wld"
  shows "stuck i g (snd (completion_step X j w wld))"
proof (cases "j = i")
  case True
  with assms show ?thesis by (simp add: completion_step_def stuck_def Let_def)
next
  case False
  let ?g = "gos wld ! j"
  obtain r1 wld1 where r: "os_Rename (g_file ?g) (g_file ?g @ ''.tmp'') wld = (r1, wld1)"
    by (cases "os_Rename (g_file ?g) (g_file ?g @ ''.tmp'') wld")
  with gos_os(2) [of "g_file ?g" "g_file ?g @ ''.tmp''" wld] assms have s1: "stuck i g wld1"
    by (simp add: stuck_def)
  obtain r2 wld2 where c: "CompressFile X (g_oldfile ?g) (g_file ?g) wld1 = (r2, wld2)"
    by (cases "CompressFile X (g_oldfile ?g) (g_file ?g) wld1")
  with gos_CompressFile [of X "g_oldfile ?g" "g_file ?g" wld1] s1 have s2: "stuck i g wld2"
    by (simp add: stuck_def)
  have s3: "stuck i g (snd (file_Close (g_oldfile ?g) wld))"
    using assms gos_os(6) [of "g_oldfile ?g" wld] by (simp add: stuck_def)
  have l: "stuck i g wld' \<Longrightarrow> stuck i g (log_Println m e wld')" for m e wld'
    by (simp add: stuck_def log_Println_def)
  show ?thesis
  proof (cases "length (gos wld) \<le> j")
    case True
    with assms show ?thesis by (simp add: completion_step_def)
  next
    case inr: False
    show ?thesis
    proof (cases "g_pc ?g")
      case At_start
      show ?thesis
      proof (cases "Compress (cf w)")
        case True
        with At_start inr r c s1 s2 l False show ?thesis
          by (cases r1; cases r2) (simp_all add: completion_step_def Let_def stuck_set_pc)
      next
        case nc: False
        with At_start inr assms False show ?thesis
          by (simp add: completion_step_def Let_def stuck_set_pc)
      qed
    next
      case At_send
      with inr assms show ?thesis by (simp add: completion_step_def Let_def)
    next
      case At_defer
      with inr s3 False show ?thesis by (simp add: completion_step_def Let_def stuck_set_pc)
    next
      case Finished
      with inr assms show ?thesis by (simp add: completion_step_def Let_def)
    qed
  qed
qed

lemma stuck_AutoRemove_step:
  "stuck i g wld \<Longrightarrow> fileCh w = None \<Longrightarrow> stuck i g (snd (AutoRemove_step w wld))"
  by (simp add: AutoRemove_step_def)

lemma stuck_frames:
  "stuck i g (snd (file_Write f b wld)) = stuck i g wld"
  "stuck i g (snd (file_Close f wld)) = stuck i g wld"
  "stuck i g (pool_Put b wld) = stuck i g wld"
  "stuck i g (snd (pool_Get X wld)) = stuck i g wld"
  "stuck i g (snd (snd (onClose_loop f q r wld))) = stuck i g wld"
  "stuck i g (snd (snd (enqueue_chunks X b q wld))) = stuck i g wld"
  by (simp_all add: stuck_def gos_os gos_onClose_loop gos_enqueue_chunks)

lemma stuck_Writer_Write:
  assumes "stuck i g wld"
  shows "stuck i g (snd (snd (Writer_Write b w wld)))"
proof (cases "fire w")
  case Nil
  with assms show ?thesis by (simp add: Writer_Write_def case_prod_beta stuck_frames)
next
  case (Cons p rest)
  with stuck_Reopen [OF assms, of p "w\<lparr>fire := rest\<rparr>"] show ?thesis
    by (simp add: Writer_Write_def case_prod_beta stuck_frames split: option.splits)
qed

lemma stuck_LockedWriter_Write:
  assumes "stuck i g wld"
  shows "stuck i g (snd (snd (LockedWriter_Write b w wld)))"
proof (cases "fire w")
  case Nil
  with assms show ?thesis by (simp add: LockedWriter_Write_def case_prod_beta stuck_frames)
next
  case (Cons p rest)
  with stuck_Reopen [OF assms, of p "w\<lparr>fire := rest\<rparr>"] show ?thesis
    by (simp add: LockedWriter_Write_def case_prod_beta stuck_frames split: option.splits)
qed

lemma stuck_BufferWriter_Write:
  assumes "stuck i g wld"
  shows "stuck i g (snd (snd (BufferWriter_Write b w wld)))"
proof (cases "fire w")
  case Nil
  with assms show ?thesis by (simp add: BufferWriter_Write_def Let_def stuck_frames)
next
  case (Cons p rest)
  with stuck_Reopen [OF assms, of p "w\<lparr>fire := rest\<rparr>"] show ?thesis
    by (simp add: BufferWriter_Write_def Let_def case_prod_beta stuck_frames split: option.splits)
qed

lemma stuck_AsynchronousWriter_Write:
  assumes "stuck i g wld"
  shows "stuck i g (snd (snd (AsynchronousWriter_Write X ch b a wld)))"
proof -
  have f: "stuck i g (snd (snd (Write_fire X p b a wld)))" for p
    using stuck_Reopen [OF assms, of p "a\<lparr>fire := tl (fire a)\<rparr>"]
    by (simp add: Write_fire_def case_prod_beta stuck_frames split: option.splits bool.splits)
  have d: "stuck i g (snd (snd (Write_default X b a wld)))"
    using assms by (simp add: Write_default_def case_prod_beta Let_def stuck_frames)
  from assms f d show ?thesis
    by (simp add: AsynchronousWriter_Write_def Write_errChan_def split: worker.splits list.splits)
qed

lemma stuck_worker_step: "stuck i g (snd (worker_step ch a wld)) = stuck i g wld"
  by (simp add: worker_step_def case_prod_beta stuck_frames split: worker.splits list.splits option.splits)

lemma stuck_worker_steps: "stuck i g (snd (worker_steps cs a wld)) = stuck i g wld"
  by (induction cs arbitrary: a wld) (simp_all add: case_prod_beta stuck_worker_step)

lemma stuck_onClose_sched: "stuck i g (snd (onClose_sched s a wld)) = stuck i g wld"
proof (induction s arbitrary: a wld)
  case Nil
  then show ?case by (simp add: onClose_def case_prod_beta stuck_frames)
next
  case (Cons p s)
  show ?case
    by (cases p)
       (simp add: Cons.IH case_prod_beta stuck_worker_steps stuck_frames
          split: list.splits option.splits)
qed

lemma stuck_AsynchronousWriter_Close:
  "stuck i g (snd (snd (AsynchronousWriter_Close il a wld))) = stuck i g wld"
  by (cases il)
     (simp add: AsynchronousWriter_Close_def case_prod_beta stuck_worker_steps stuck_onClose_sched
        stuck_frames)

lemma stuck_step:
  assumes "stuck i g (snd s)" and "fileCh_of (fst s) = None"
  shows "stuck i g (snd (step X act s))"
  using assms
  apply (cases s; cases "fst s"; cases act)
  apply (simp_all add: step_defs fileCh_of_def case_prod_beta
      stuck_Writer_Write stuck_LockedWriter_Write stuck_BufferWriter_Write stuck_AsynchronousWriter_Write
      stuck_AsynchronousWriter_Close stuck_worker_step stuck_completion_step stuck_AutoRemove_step
      stuck_frames
      Writer_Close_def LockedWriter_Close_def BufferWriter_Close_def)
  done

text \<open>
  C2, where the code leaves the claim. With the nil channel in \<open>fileCh\<close>, a completion
  goroutine that has reached \<open>w.fileCh <- file\<close> stays there whatever happens next:
  it neither completes the send nor runs its deferred \<open>Close\<close> of the old handle.
\<close>

theorem nil_channel_blocks_completion:
  assumes "fileCh_of rw = None" and "stuck i g wld"
  shows "stuck i g (snd (run X acts (rw, wld))) \<and> fileCh_of (fst (run X acts (rw, wld))) = None"
proof -
  have "stuck i g (snd s) \<Longrightarrow> fileCh_of (fst s) = None \<Longrightarrow>
          stuck i g (snd (run X acts s)) \<and> fileCh_of (fst (run X acts s)) = None" for s
    by (induction acts arbitrary: s) (simp_all add: stuck_step step_nil)
  from this [of "(rw, wld)"] assms show ?thesis by simp
qed

text \<open>
  A writer of mode "none" after one successful rotation: the completion goroutine is
  blocked in the send, the old handle \<open>0\<close> is open, \<open>AutoRemove\<close> has received
  nothing, and the goroutine is still blocked after anything that follows.
\<close>

theorem nil_channel_blocks_completion_witness:
  "fileCh_of (fst (run ex_externs (ex_rotation ''r1'' 0)
                    (RW_none (ex_writer ''none'' False None), ex_world True []))) = None
   \<and> stuck 0 \<lparr>g_oldfile = 0, g_file = ''r1'', g_pc = At_send\<rparr>
        (snd (run ex_externs (ex_rotation ''r1'' 0)
               (RW_none (ex_writer ''none'' False None), ex_world True [])))
   \<and> file_of (fst (run ex_externs (ex_rotation ''r1'' 0)
                    (RW_none (ex_writer ''none'' False None), ex_world True []))) = 1
   \<and> handle_open (snd (run ex_externs (ex_rotation ''r1'' 0)
                          (RW_none (ex_writer ''none'' False None), ex_world True []))) 0
   \<and> rollingfilelist_of (fst (run ex_externs (ex_rotation ''r1'' 0)
                    (RW_none (ex_writer ''none'' False None), ex_world True []))) = []
   \<and> (\<forall>acts. stuck 0 \<lparr>g_oldfile = 0, g_file = ''r1'', g_pc = At_send\<rparr>
        (snd (run ex_externs (ex_rotation ''r1'' 0 @ acts)
               (RW_none (ex_writer ''none'' False None), ex_world True []))))"
proof -
  let ?s = "run ex_externs (ex_rotation ''r1'' 0) (RW_none (ex_writer ''none'' False None), ex_world True [])"
  let ?g = "\<lparr>g_oldfile = 0, g_file = ''r1'', g_pc = At_send\<rparr>"
  have e: "fileCh_of (fst ?s) = None \<and> stuck 0 ?g (snd ?s) \<and> file_of (fst ?s) = 1
           \<and> handle_open (snd ?s) 0 \<and> rollingfilelist_of (fst ?s) = []"
    by (simp add: ex_defs os_defs writer_defs step_defs obs_defs stuck_def Let_def)
  then have n: "fileCh_of (fst ?s) = None" and s: "stuck 0 ?g (snd ?s)" by simp_all
  have "stuck 0 ?g (snd (run ex_externs (ex_rotation ''r1'' 0 @ acts)
               (RW_none (ex_writer ''none'' False None), ex_world True [])))" for acts
    using nil_channel_blocks_completion [OF n s, of ex_externs acts] by (simp add: run_append)
  with e show ?thesis by simp
qed

section \<open>The default branch of the asynchronous Write\<close>

text \<open>
  C4, where the code leaves the claim. On the default branch the chunk that is queued
  is the first \<open>len(b)\<close> bytes of the pooled buffer followed by \<open>b\<close>: the bytes of the
  pooled buffer, not those of \<open>b\<close>, as far as the pooled buffer reaches.
\<close>

theorem fast_path_sends_pool_bytes:
  assumes "closed a = 0" and "fire a = []" and "\<forall>e c. worker a \<noteq> W_errsend e c"
    and "length (queue a) < QueueSize X"
    and "pool_Get X wld = (pbuf, wld1)"
  shows "AsynchronousWriter_Write X ch b a wld
           = (Returns (length b, None), a\<lparr>queue := queue a @ [take (length b) (pbuf @ b)]\<rparr>, wld1)"
  using assms
  by (cases "worker a") (simp_all add: AsynchronousWriter_Write_def Write_default_def Let_def)

text \<open>
  The writer of mode "async" as constructed, on its first \<open>Write\<close> of the two bytes
  \<open>hi\<close>: the pool is empty, \<open>New\<close> makes a buffer of zero bytes, and the chunk queued
  is two zero bytes.
\<close>

theorem fast_path_sends_pool_bytes_witness:
  "closed ex_async = 0 \<and> fire ex_async = [] \<and> worker ex_async = W_select
   \<and> length (queue ex_async) < QueueSize ex_externs
   \<and> pool_Get ex_externs (ex_world False []) = ([0, 0, 0, 0], ex_world False [])
   \<and> AsynchronousWriter_Write ex_externs False [0x68, 0x69] ex_async (ex_world False [])
       = (Returns (2, None), ex_async\<lparr>queue := [[0, 0]]\<rparr>, ex_world False [])"
proof -
  have h1: "closed ex_async = 0" and h2: "fire ex_async = []"
    and h3: "\<forall>e c. worker ex_async \<noteq> W_errsend e c" and h3': "worker ex_async = W_select"
    and h4: "length (queue ex_async) < QueueSize ex_externs"
    by (simp_all add: ex_defs)
  have h5: "pool_Get ex_externs (ex_world False []) = ([0, 0, 0, 0], ex_world False [])"
    by (simp add: pool_Get_def ex_defs numeral_eq_Suc)
  have q: "queue ex_async = []" by (simp add: ex_defs)
  show ?thesis
    using h1 h2 h3' h4 h5 q fast_path_sends_pool_bytes [OF h1 h2 h3 h4 h5, of False "[0x68, 0x69]"]
    by simp
qed

section \<open>Close of the asynchronous writer\<close>

lemma onClose_loop_ok:
  assumes "handle_open wld f" and "\<forall>x\<in>set (take (length q) (faults wld)). x = Succeed"
  shows "\<exists>wld1. onClose_loop f q r wld = ([], r, wld1)
           \<and> handle_data wld1 f = handle_data wld f @ concat q \<and> handle_open wld1 f"
  using assms
proof (induction q arbitrary: wld)
  case Nil
  then show ?case by simp
next
  case (Cons b q)
  let ?w = "snd (file_Write f b wld)"
  have one: "\<forall>x\<in>set (take 1 (faults wld)). x = Succeed"
    using Cons.prems(2) by (cases "faults wld") auto
  note ok = file_Write_ok [OF Cons.prems(1) one, of b]
  have rest: "\<forall>x\<in>set (take (length q) (faults (pool_Put b ?w))). x = Succeed"
    using Cons.prems(2) ok(4) by (cases "faults wld") (auto simp: pool_Put_obs)
  have op: "handle_open (pool_Put b ?w) f"
    using ok(3) by (simp add: pool_Put_obs)
  from Cons.IH [OF op rest] obtain wld1 where
    l: "onClose_loop f q r (pool_Put b ?w) = ([], r, wld1)"
    and d: "handle_data wld1 f = handle_data (pool_Put b ?w) f @ concat q"
    and o: "handle_open wld1 f" by blast
  have d': "handle_data (pool_Put b ?w) f = handle_data wld f @ b"
    using ok(2) by (simp add: pool_Put_obs)
  have "onClose_loop f (b # q) r wld = onClose_loop f q r (pool_Put b ?w)"
    using ok(1) by (cases "file_Write f b wld") auto
  with l d d' o show ?case by simp
qed

text \<open>
  Once \<open>ctx\<close> is closed, a worker that holds no chunk and whose \<open>select\<close> takes
  \<open><-w.ctx\<close> returns and touches neither the queue nor the world.
\<close>

lemma worker_step_quiet:
  assumes "ctx a" and "idle a"
  shows "snd (worker_step True a wld) = wld"
    and "queue (fst (worker_step True a wld)) = queue a"
    and "file_fd (fst (worker_step True a wld)) = file_fd a"
    and "errChan (fst (worker_step True a wld)) = errChan a"
    and "ctx (fst (worker_step True a wld))"
    and "idle (fst (worker_step True a wld))"
  using assms by (auto simp: worker_step_def idle_def split: list.splits)

lemma worker_steps_quiet:
  assumes "ctx a" and "idle a" and "list_all (\<lambda>c. c) cs"
  shows "snd (worker_steps cs a wld) = wld
         \<and> queue (fst (worker_steps cs a wld)) = queue a
         \<and> file_fd (fst (worker_steps cs a wld)) = file_fd a
         \<and> errChan (fst (worker_steps cs a wld)) = errChan a
         \<and> ctx (fst (worker_steps cs a wld))
         \<and> idle (fst (worker_steps cs a wld))"
  using assms
proof (induction cs arbitrary: a)
  case Nil
  then show ?case by simp
next
  case (Cons c cs)
  from Cons.prems(3) have c: "c = True" and r: "list_all (\<lambda>c. c) cs" by simp_all
  note q = worker_step_quiet [OF Cons.prems(1,2), of wld]
  from Cons.IH [OF q(5) q(6) r] q show ?case
    by (simp add: c case_prod_beta)
qed

lemma onClose_ok:
  assumes "handle_open wld (file_fd a)"
    and "\<forall>x\<in>set (take (length (queue a)) (faults wld)). x = Succeed"
  shows "\<exists>a1 wld1. onClose a wld = (a1, wld1) \<and> queue a1 = [] \<and> file_fd a1 = file_fd a
           \<and> ctx a1 = ctx a \<and> idle a1 = idle a
           \<and> handle_data wld1 (file_fd a) = handle_data wld (file_fd a) @ concat (queue a)
           \<and> handle_open wld1 (file_fd a)"
proof -
  from onClose_loop_ok [OF assms, of "errChan a"] obtain wld1 where
    "onClose_loop (file_fd a) (queue a) (errChan a) wld = ([], errChan a, wld1)"
    and "handle_data wld1 (file_fd a) = handle_data wld (file_fd a) @ concat (queue a)"
    and "handle_open wld1 (file_fd a)" by blast
  then show ?thesis by (simp add: onClose_def idle_def)
qed

lemma onClose_sched_ok:
  assumes "ctx a" and "idle a"
    and "list_all (\<lambda>(ws1, ws2). list_all (\<lambda>c. c) ws1 \<and> list_all (\<lambda>c. c) ws2) s"
    and "handle_open wld (file_fd a)"
    and "\<forall>x\<in>set (take (length (queue a)) (faults wld)). x = Succeed"
  shows "\<exists>a1 wld1. onClose_sched s a wld = (a1, wld1) \<and> queue a1 = [] \<and> file_fd a1 = file_fd a
           \<and> ctx a1 \<and> idle a1
           \<and> handle_data wld1 (file_fd a) = handle_data wld (file_fd a) @ concat (queue a)
           \<and> handle_open wld1 (file_fd a)"
  using assms
proof (induction s arbitrary: a wld)
  case Nil
  from onClose_ok [OF Nil.prems(4,5)] Nil.prems(1,2) show ?case by auto
next
  case (Cons p s)
  note prems = Cons.prems and IH = Cons.IH
  obtain ws1 ws2 where p: "p = (ws1, ws2)" by (cases p)
  with prems(3) have w1: "list_all (\<lambda>c. c) ws1" and w2: "list_all (\<lambda>c. c) ws2"
    and rest: "list_all (\<lambda>(ws1, ws2). list_all (\<lambda>c. c) ws1 \<and> list_all (\<lambda>c. c) ws2) s" by simp_all
  from worker_steps_quiet [OF prems(1,2) w1, of wld] obtain a1 where
    s1: "worker_steps ws1 a wld = (a1, wld)"
    and q1: "queue a1 = queue a" "file_fd a1 = file_fd a" "ctx a1" "idle a1"
    by (cases "worker_steps ws1 a wld") auto
  show ?case
  proof (cases "queue a")
    case Nil
    with q1 s1 p prems(4) show ?thesis by simp
  next
    case (Cons b q)
    have c1: "ctx (a1\<lparr>queue := q\<rparr>)" and i1: "idle (a1\<lparr>queue := q\<rparr>)"
      using q1 by (simp_all add: idle_def)
    from worker_steps_quiet [OF c1 i1 w2, of wld] obtain a2 where
      s2: "worker_steps ws2 (a1\<lparr>queue := q\<rparr>) wld = (a2, wld)"
      and q2: "ctx a2" "idle a2"
      and f2: "file_fd a2 = file_fd a" and qq2: "queue a2 = q"
      using q1 by (cases "worker_steps ws2 (a1\<lparr>queue := q\<rparr>) wld") auto
    have one: "\<forall>x\<in>set (take 1 (faults wld)). x = Succeed"
      using prems(5) Cons by (cases "faults wld") auto
    from file_Write_ok [OF prems(4) one, of b] obtain w' where
      wr: "file_Write (file_fd a) b wld = ((length b, None), w')"
      and ok: "handle_data w' (file_fd a) = handle_data wld (file_fd a) @ b"
        "handle_open w' (file_fd a)" "faults w' = tl (faults wld)"
      by (cases "file_Write (file_fd a) b wld") auto
    have op: "handle_open (pool_Put b w') (file_fd a2)"
      using ok(2) f2 by (simp add: pool_Put_obs)
    have fl: "\<forall>x\<in>set (take (length (queue a2)) (faults (pool_Put b w'))). x = Succeed"
      using prems(5) Cons ok(3) qq2 by (cases "faults wld") (auto simp: pool_Put_obs)
    from IH [OF q2 rest op fl]
    obtain a3 wld3 where
      r: "onClose_sched s a2 (pool_Put b w') = (a3, wld3)"
      and e: "queue a3 = []" "file_fd a3 = file_fd a2" "ctx a3" "idle a3"
      and d: "handle_data wld3 (file_fd a2) = handle_data (pool_Put b w') (file_fd a2) @ concat (queue a2)"
      and o: "handle_open wld3 (file_fd a2)" by blast
    have q1q: "queue a1 = b # q" using q1 Cons by simp
    have "onClose_sched (p # s) a wld = (a3, wld3)"
      using p s1 q1q s2 f2 wr r by simp
    moreover have "handle_data wld3 (file_fd a) = handle_data wld (file_fd a) @ concat (queue a)"
      using d f2 qq2 ok(1) Cons by (simp add: pool_Put_obs)
    ultimately show ?thesis using e f2 o by simp
  qed
qed

text \<open>
  C5, as the code has it. Let \<open>Close\<close> win the compare-and-swap on a writer whose
  handle is open while the worker holds no chunk, let the worker take nothing from the
  queue from then on (it is not scheduled before \<open>close(w.ctx)\<close> and its \<open>select\<close>
  takes \<open><-w.ctx\<close> afterwards), and let the script fail none of the writes of the
  drain. Then the chunks enqueued and not yet written are the queue; \<open>Close\<close> appends
  every one of them to the file in queue order while the handle is open, then closes
  the handle and returns nil.
\<close>

theorem Close_drains_queue:
  assumes "closed a = 0"
    and "idle a"
    and "quiet il"
    and "handle_open wld (file_fd a)"
    and "\<forall>x\<in>set (take (length (queue a)) (faults wld)). x = Succeed"
  shows "\<exists>a1 wld1.
           queue a1 = []
           \<and> handle_data wld1 (file_fd a) = handle_data wld (file_fd a) @ concat (queue a)
           \<and> handle_open wld1 (file_fd a)
           \<and> AsynchronousWriter_Close il a wld = (None, a1, snd (file_Close (file_fd a) wld1))
           \<and> handle_data (snd (file_Close (file_fd a) wld1)) (file_fd a)
               = handle_data wld (file_fd a) @ concat (queue a)
           \<and> \<not> handle_open (snd (file_Close (file_fd a) wld1)) (file_fd a)"
proof -
  obtain ws0 s ws9 where il: "il = (ws0, s, ws9)" by (cases il)
  with assms(3) have z: "ws0 = []"
    and sq: "list_all (\<lambda>(ws1, ws2). list_all (\<lambda>c. c) ws1 \<and> list_all (\<lambda>c. c) ws2) s"
    and w9: "list_all (\<lambda>c. c) ws9" by (simp_all add: quiet_def)
  let ?a0 = "a\<lparr>closed := 1, ctx := True\<rparr>"
  have c0: "ctx ?a0" and i0: "idle ?a0" using assms(2) by (simp_all add: idle_def)
  have o0: "handle_open wld (file_fd ?a0)" using assms(4) by simp
  have f0: "\<forall>x\<in>set (take (length (queue ?a0)) (faults wld)). x = Succeed" using assms(5) by simp
  from onClose_sched_ok [OF c0 i0 sq o0 f0] obtain a2 wld2 where
    r: "onClose_sched s ?a0 wld = (a2, wld2)"
    and e: "queue a2 = []" "file_fd a2 = file_fd a" "ctx a2" "idle a2"
    and d: "handle_data wld2 (file_fd a) = handle_data wld (file_fd a) @ concat (queue a)"
    and o: "handle_open wld2 (file_fd a)" by auto
  from worker_steps_quiet [OF e(3,4) w9, of wld2] obtain a3 where
    s9: "worker_steps ws9 a2 wld2 = (a3, wld2)"
    and f3: "file_fd a3 = file_fd a" and q3: "queue a3 = []"
    using e by (cases "worker_steps ws9 a2 wld2") auto
  note c = file_Close_ok [OF o]
  have "AsynchronousWriter_Close il a wld = (None, a3, snd (file_Close (file_fd a) wld2))"
    using assms(1) il z r s9 f3 c(1)
    by (cases "file_Close (file_fd a) wld2") (simp add: AsynchronousWriter_Close_def)
  with q3 d o c show ?thesis
    by (intro exI [of _ a3] exI [of _ wld2]) simp
qed

text \<open>
  The asynchronous writer as constructed, with \<open>[1,2]\<close> and \<open>[3]\<close> queued, and a
  worker that is scheduled twice before every step of the drain and returns.
\<close>

theorem Close_drains_queue_witness:
  "closed (ex_async\<lparr>queue := [[1, 2], [3]]\<rparr>) = 0
   \<and> idle (ex_async\<lparr>queue := [[1, 2], [3]]\<rparr>)
   \<and> quiet ([], [([True, True], [True]), ([], [True])], [True])
   \<and> handle_open (ex_world False []) (file_fd (ex_async\<lparr>queue := [[1, 2], [3]]\<rparr>))
   \<and> take (length (queue (ex_async\<lparr>queue := [[1, 2], [3]]\<rparr>))) (faults (ex_world False [])) = []
   \<and> fst (AsynchronousWriter_Close ([], [([True, True], [True]), ([], [True])], [True])
            (ex_async\<lparr>queue := [[1, 2], [3]]\<rparr>) (ex_world False [])) = None
   \<and> queue (fst (snd (AsynchronousWriter_Close ([], [([True, True], [True]), ([], [True])], [True])
            (ex_async\<lparr>queue := [[1, 2], [3]]\<rparr>) (ex_world False [])))) = []
   \<and> handle_data (snd (snd (AsynchronousWriter_Close ([], [([True, True], [True]), ([], [True])], [True])
            (ex_async\<lparr>queue := [[1, 2], [3]]\<rparr>) (ex_world False []))))
        (file_fd (ex_async\<lparr>queue := [[1, 2], [3]]\<rparr>)) = [1, 2, 3]
   \<and> \<not> handle_open (snd (snd (AsynchronousWriter_Close ([], [([True, True], [True]), ([], [True])], [True])
            (ex_async\<lparr>queue := [[1, 2], [3]]\<rparr>) (ex_world False []))))
        (file_fd (ex_async\<lparr>queue := [[1, 2], [3]]\<rparr>))"
proof -
  let ?a = "ex_async\<lparr>queue := [[1, 2], [3]]\<rparr>"
  let ?wld = "ex_world False []"
  let ?il = "([], [([True, True], [True]), ([], [True])], [True]) :: interleaving"
  have h1: "closed ?a = 0" by (simp add: ex_defs)
  have h2: "idle ?a" by (simp add: ex_defs idle_def)
  have h3: "quiet ?il" by (simp add: quiet_def)
  have h4: "handle_open ?wld (file_fd ?a)" by (simp add: ex_defs handle_open_def)
  have h5: "\<forall>x\<in>set (take (length (queue ?a)) (faults ?wld)). x = Succeed" by (simp add: ex_defs)
  have h5': "take (length (queue ?a)) (faults ?wld) = []" by (simp add: ex_defs)
  have d: "handle_data ?wld (file_fd ?a) = []" by (simp add: ex_defs handle_data_def)
  have q: "concat (queue ?a) = [1, 2, 3]" by simp
  from Close_drains_queue [OF h1 h2 h3 h4 h5] obtain a1 wld1 where
    "queue a1 = []"
    "AsynchronousWriter_Close ?il ?a ?wld = (None, a1, snd (file_Close (file_fd ?a) wld1))"
    "handle_data (snd (file_Close (file_fd ?a) wld1)) (file_fd ?a) = handle_data ?wld (file_fd ?a) @ concat (queue ?a)"
    "\<not> handle_open (snd (file_Close (file_fd ?a) wld1)) (file_fd ?a)"
    by blast
  with h1 h2 h3 h4 h5' d q show ?thesis by simp
qed

text \<open>
  C5 as stated fails in three ways, each from the writer of mode "async" that rotates
  to \<open>r1\<close> and queues the chunks \<open>[1,2,3,4]\<close> and \<open>[5]\<close> of one \<open>Write\<close>.
  First, the first write of the drain fails and no receiver waits on the error channel:
  \<open>Close\<close> returns nil with \<open>[5]\<close> still queued and the handle closed. Second, no
  call fails, but the worker has received \<open>[1,2,3,4]\<close> when \<open>Close\<close> is called:
  \<open>Close\<close> writes \<open>[5]\<close>, closes the handle and returns nil, and the write of the
  worker then fails on the closed handle. Third, the worker holds nothing, but its
  \<open>select\<close> after \<open>close(w.ctx)\<close> receives \<open>[1,2,3,4]\<close>: the same loss.
\<close>

theorem Close_drop_counterexample:
  "(case ex_new ''async'' False (replicate 4 Succeed @ [Fail 0]) of
      (Inr rw, wld) \<Rightarrow>
        (case run ex_externs [Fire ''r1'', Call_Write [1, 2, 3, 4, 5] False] (rw, wld) of
           (RW_async a, wld1) \<Rightarrow>
             closed a = 0 \<and> queue a = [[1, 2, 3, 4], [5]] \<and> worker a = W_select
             \<and> handle_data wld1 (file_fd a) = []
             \<and> (case AsynchronousWriter_Close ([], [], []) a wld1 of
                   (r, a2, wld2) \<Rightarrow>
                     r = None \<and> queue a2 = [[5]] \<and> handle_data wld2 (file_fd a2) = []
                     \<and> \<not> handle_open wld2 (file_fd a2))
         | _ \<Rightarrow> False)
    | (Inl e, wld) \<Rightarrow> False)
   \<and> (case ex_new ''async'' False [] of
      (Inr rw, wld) \<Rightarrow>
        (case run ex_externs [Fire ''r1'', Call_Write [1, 2, 3, 4, 5] False, Go_worker False] (rw, wld) of
           (RW_async a, wld1) \<Rightarrow>
             closed a = 0 \<and> queue a = [[5]] \<and> worker a = W_write [1, 2, 3, 4]
             \<and> faults wld1 = [] \<and> handle_data wld1 (file_fd a) = []
             \<and> (case AsynchronousWriter_Close ([], [], []) a wld1 of
                   (r, a2, wld2) \<Rightarrow>
                     r = None \<and> queue a2 = [] \<and> handle_data wld2 (file_fd a2) = [5]
                     \<and> \<not> handle_open wld2 (file_fd a2)
                     \<and> (case worker_step False a2 wld2 of
                           (a3, wld3) \<Rightarrow>
                             worker a3 = W_errsend ErrFileClosed [1, 2, 3, 4]
                             \<and> handle_data wld3 (file_fd a3) = [5]))
         | _ \<Rightarrow> False)
    | (Inl e, wld) \<Rightarrow> False)
   \<and> (case ex_new ''async'' False [] of
      (Inr rw, wld) \<Rightarrow>
        (case run ex_externs [Fire ''r1'', Call_Write [1, 2, 3, 4, 5] False] (rw, wld) of
           (RW_async a, wld1) \<Rightarrow>
             closed a = 0 \<and> queue a = [[1, 2, 3, 4], [5]] \<and> worker a = W_select
             \<and> faults wld1 = [] \<and> handle_data wld1 (file_fd a) = []
             \<and> (case AsynchronousWriter_Close ([], [([False], [])], []) a wld1 of
                   (r, a2, wld2) \<Rightarrow>
                     r = None \<and> queue a2 = [] \<and> handle_data wld2 (file_fd a2) = [5]
                     \<and> \<not> handle_open wld2 (file_fd a2)
                     \<and> (case worker_step False a2 wld2 of
                           (a3, wld3) \<Rightarrow>
                             worker a3 = W_errsend ErrFileClosed [1, 2, 3, 4]
                             \<and> handle_data wld3 (file_fd a3) = [5]))
         | _ \<Rightarrow> False)
    | (Inl e, wld) \<Rightarrow> False)"
  by (simp add: ex_defs os_defs step_defs obs_defs Let_def AsynchronousWriter_Write_def Write_fire_def
      Reopen_def spawn_def enqueue_chunks.simps pool_Get_def pool_Put_def AsynchronousWriter_Close_def
      onClose_def worker_step_def numeral_eq_Suc)

section \<open>The asynchronous writer after Close\<close>

lemma Write_after_close:
  "closed a \<noteq> 0 \<Longrightarrow> AsynchronousWriter_Write X ch b a wld = (Returns (0, Some ErrClosed), a, wld)"
  by (simp add: AsynchronousWriter_Write_def)

lemma Close_after_close:
  "closed a \<noteq> 0 \<Longrightarrow> AsynchronousWriter_Close il a wld = (Some ErrClosed, a, wld)"
  by (cases il) (simp add: AsynchronousWriter_Close_def)

lemma worker_step_closed: "closed (fst (worker_step ch a wld)) = closed a"
  by (simp add: worker_step_def split: worker.splits list.splits prod.splits option.splits)

lemma worker_steps_closed: "closed (fst (worker_steps cs a wld)) = closed a"
  by (induction cs arbitrary: a wld) (simp_all add: case_prod_beta worker_step_closed)

lemma onClose_sched_closed: "closed (fst (onClose_sched s a wld)) = closed a"
proof (induction s arbitrary: a wld)
  case Nil
  then show ?case by (simp add: onClose_def case_prod_beta)
next
  case (Cons p s)
  show ?case
    by (cases p)
       (simp add: Cons.IH case_prod_beta worker_steps_closed split: list.splits option.splits)
qed

lemma Close_sets_closed:
  "closed a = 0 \<Longrightarrow> closed (fst (snd (AsynchronousWriter_Close il a wld))) = 1"
  by (cases il)
     (simp add: AsynchronousWriter_Close_def case_prod_beta worker_steps_closed onClose_sched_closed)

lemma step_async_closed:
  "closed a = 1 \<Longrightarrow> closed (fst (step_async X act a wld)) = 1"
  by (cases act)
     (simp_all add: step_async_def Write_after_close Close_after_close completion_step_def arrive_def
        AutoRemove_step_def AutoRemove_received_def worker_step_closed errChan_receive_def Let_def
        split: pc.splits prod.splits option.splits list.splits worker.splits)

lemma run_async_closed:
  "closed a = 1 \<Longrightarrow> \<exists>a2 wld2. run X acts (RW_async a, wld) = (RW_async a2, wld2) \<and> closed a2 = 1"
proof (induction acts arbitrary: a wld)
  case Nil
  then show ?case by simp
next
  case (Cons act acts)
  obtain a1 wld1 where s: "step_async X act a wld = (a1, wld1)" by (cases "step_async X act a wld")
  with Cons.prems step_async_closed [of a X act wld] have "closed a1 = 1" by simp
  from Cons.IH [OF this, of wld1] s show ?case by (simp add: step_def)
qed

text \<open>
  C6. After a \<open>Close\<close> that won the compare-and-swap, however the worker ran during
  it, and after anything that happens then, \<open>Write\<close> returns \<open>(0, ErrClosed)\<close> and
  leaves the writer and the world as they are, the queue included, and \<open>Close\<close>
  returns \<open>ErrClosed\<close>.
\<close>

theorem closed_sink:
  assumes "closed a = 0"
    and "AsynchronousWriter_Close il a wld = (r, a1, wld1)"
  shows "\<exists>a2 wld2. run X acts (RW_async a1, wld1) = (RW_async a2, wld2)
           \<and> AsynchronousWriter_Write X ch b a2 wld2 = (Returns (0, Some ErrClosed), a2, wld2)
           \<and> queue (fst (snd (AsynchronousWriter_Write X ch b a2 wld2))) = queue a2
           \<and> (\<forall>il2. AsynchronousWriter_Close il2 a2 wld2 = (Some ErrClosed, a2, wld2))"
proof -
  from assms Close_sets_closed [of a il wld] have "closed a1 = 1" by simp
  from run_async_closed [OF this, of X acts wld1]
  obtain a2 wld2 where "run X acts (RW_async a1, wld1) = (RW_async a2, wld2)" and "closed a2 = 1"
    by blast
  then show ?thesis by (simp add: Write_after_close Close_after_close)
qed

theorem closed_sink_witness:
  "closed ex_async = 0
   \<and> AsynchronousWriter_Close ([], [], []) ex_async (ex_world False [])
       = (None, ex_async\<lparr>closed := 1, ctx := True\<rparr>, snd (file_Close 0 (ex_world False [])))
   \<and> (\<exists>a2 wld2.
         run ex_externs [Call_Write [1] False, Go_worker False, Fire ''r1'', Call_Write [2] True,
                         Call_Close ([True], [], [])]
           (RW_async (ex_async\<lparr>closed := 1, ctx := True\<rparr>), snd (file_Close 0 (ex_world False [])))
           = (RW_async a2, wld2)
         \<and> AsynchronousWriter_Write ex_externs False [3] a2 wld2 = (Returns (0, Some ErrClosed), a2, wld2)
         \<and> AsynchronousWriter_Close ([], [], []) a2 wld2 = (Some ErrClosed, a2, wld2))"
proof -
  have h1: "closed ex_async = 0" by (simp add: ex_defs)
  have h2: "AsynchronousWriter_Close ([], [], []) ex_async (ex_world False [])
              = (None, ex_async\<lparr>closed := 1, ctx := True\<rparr>, snd (file_Close 0 (ex_world False [])))"
    by (simp add: AsynchronousWriter_Close_def onClose_def ex_defs os_defs)
  from closed_sink [OF h1 h2, of ex_externs
      "[Call_Write [1] False, Go_worker False, Fire ''r1'', Call_Write [2] True, Call_Close ([True], [], [])]"
      False "[3]"]
  show ?thesis using h1 h2 by blast
qed

section \<open>A failed encode step\<close>

text \<open>
  C7, where the code leaves the claim. When \<open>io.Copy\<close> fails and the removal of the
  partial output succeeds, \<open>CompressFile\<close> returns nil: what it returns is the result of
  \<open>os.Remove\<close>, and the error of the copy is lost.
\<close>

theorem CompressFile_loses_copy_error:
  assumes "os_OpenFile cmpname wld = (Inr cmpfile, wld1)"
    and "file_Seek0 oldfile wld1 = (None, wld2)"
    and "io_Copy (gzip_NewWriter cmpfile) oldfile wld2 = ((gw1, Some err), wld3)"
    and "os_Remove cmpname wld3 = (None, wld4)"
  shows "fst (CompressFile X oldfile cmpname wld) = None"
  using assms by (simp add: CompressFile_def Let_def)

theorem CompressFile_loses_copy_error_witness:
  "os_OpenFile ''r1'' ((ex_world True [Succeed, Succeed, Fail 3])\<lparr>names := [''r1.tmp'' \<mapsto> 0]\<rparr>)
     = (Inr 1, (ex_world True [Succeed, Fail 3])
                 \<lparr>names := [''r1.tmp'' \<mapsto> 0, ''r1'' \<mapsto> 1], inodes := ((\<lambda>i. [])(0 := []))(1 := []),
                  next_ino := 2,
                  fds := [0 \<mapsto> \<lparr>ino = 0, offset = 0, is_open = True\<rparr>,
                          1 \<mapsto> \<lparr>ino = 1, offset = 0, is_open = True\<rparr>],
                  next_fd := 2\<rparr>)
   \<and> fst (CompressFile ex_externs 0 ''r1''
            ((ex_world True [Succeed, Succeed, Fail 3])\<lparr>names := [''r1.tmp'' \<mapsto> 0]\<rparr>)) = None
   \<and> \<not> on_disk (snd (CompressFile ex_externs 0 ''r1''
            ((ex_world True [Succeed, Succeed, Fail 3])\<lparr>names := [''r1.tmp'' \<mapsto> 0]\<rparr>))) ''r1''
   \<and> on_disk (snd (CompressFile ex_externs 0 ''r1''
            ((ex_world True [Succeed, Succeed, Fail 3])\<lparr>names := [''r1.tmp'' \<mapsto> 0]\<rparr>))) ''r1.tmp''"
proof -
  let ?wld = "(ex_world True [Succeed, Succeed, Fail 3])\<lparr>names := [''r1.tmp'' \<mapsto> 0]\<rparr>"
  let ?wld1 = "(ex_world True [Succeed, Fail 3])
                 \<lparr>names := [''r1.tmp'' \<mapsto> 0, ''r1'' \<mapsto> 1], inodes := ((\<lambda>i. [])(0 := []))(1 := []),
                  next_ino := 2,
                  fds := [0 \<mapsto> \<lparr>ino = 0, offset = 0, is_open = True\<rparr>,
                          1 \<mapsto> \<lparr>ino = 1, offset = 0, is_open = True\<rparr>],
                  next_fd := 2\<rparr>"
  have h1: "os_OpenFile ''r1'' ?wld = (Inr 1, ?wld1)"
    by (simp add: os_defs ex_world_def Let_def)
  obtain wld2 where h2: "file_Seek0 0 ?wld1 = (None, wld2)"
    by (simp add: os_defs ex_world_def)
  obtain gw1 wld3 where h3: "io_Copy (gzip_NewWriter 1) 0 wld2 = ((gw1, Some EIO), wld3)"
    using h2 by (auto simp: io_Copy_def os_defs ex_world_def gzip_NewWriter_def Let_def)
  obtain wld4 where h4: "os_Remove ''r1'' wld3 = (None, wld4)"
    using h2 h3 by (auto simp: io_Copy_def os_defs ex_world_def gzip_NewWriter_def Let_def)
  have d: "\<not> on_disk (snd (CompressFile ex_externs 0 ''r1'' ?wld)) ''r1''
           \<and> on_disk (snd (CompressFile ex_externs 0 ''r1'' ?wld)) ''r1.tmp''"
    by (simp add: CompressFile_def io_Copy_def gzip_Close_def gzip_NewWriter_def os_defs ex_world_def
        ex_externs_def on_disk_def Let_def)
  show ?thesis
    using h1 d CompressFile_loses_copy_error [OF h1 h2 h3 h4, of ex_externs] by simp
qed

text \<open>
  The same through a writer of mode "lock" with compression: five bytes are written,
  the file is rotated to \<open>r1\<close>, and the tenth call of the operating system, the copy,
  fails. Nothing is logged, the goroutine goes on to the send, and the notification is
  for \<open>r1\<close>, which is no longer on disk; the raw file stays behind as \<open>r1.tmp\<close>.
\<close>

lemma failed_encode_is_not_logged:
  "case ex_new ''lock'' True (replicate 9 Succeed @ [Fail 3]) of
     (Inr rw, wld) \<Rightarrow>
       (case run ex_externs [Call_Write [0x68, 0x65, 0x6c, 0x6c, 0x6f] False, Fire ''r1'', Call_Write [] False,
                             Go_completion 0] (rw, wld) of
          (rw1, wld1) \<Rightarrow>
            logged wld1 = [] \<and> map g_pc (gos wld1) = [At_send] \<and> fileCh_of rw1 = Some [0]
            \<and> \<not> on_disk wld1 ''r1'' \<and> contents wld1 ''r1.tmp'' = Some [0x68, 0x65, 0x6c, 0x6c, 0x6f])
   | (Inl e, wld) \<Rightarrow> False"
  by (simp add: ex_defs os_defs writer_defs step_defs obs_defs Let_def CompressFile_def io_Copy_def
      gzip_Close_def gzip_NewWriter_def numeral_eq_Suc)

section \<open>Compression round trip\<close>

text \<open>
  C8. Take a writer with compression whose open handle is the file at its path, in a
  well-numbered world (the inode and the handle in use lie below the next free ones),
  and let no call fail. After \<open>Reopen dest\<close> and the run of its completion goroutine
  the file at \<open>dest\<close> decodes to the bytes the handle's file held when \<open>Reopen\<close> was
  called, \<open>dest.tmp\<close> is gone, nothing is logged and the goroutine is at the send.
  \<open>gunzip\<close> is any decoder that inverts the encoder.
\<close>

theorem compression_round_trip:
  assumes "Compress (cf w)"
    and "faults wld = []"
    and "fds wld (file_fd w) = Some h" and "is_open h"
    and "names wld (absPath w) = Some (ino h)"
    and "ino h < next_ino wld" and "file_fd w < next_fd wld"
    and "\<And>x. gunzip (gzip X x) = x"
  shows "\<exists>w1 wld1 w2 wld2.
           Reopen dest w wld = (None, w1, wld1)
           \<and> completion_step X (length (gos wld)) w1 wld1 = (w2, wld2)
           \<and> map_option gunzip (contents wld2 dest) = Some (handle_data wld (file_fd w))
           \<and> \<not> on_disk wld2 (dest @ ''.tmp'')
           \<and> logged wld2 = logged wld
           \<and> g_pc (gos wld2 ! length (gos wld)) = At_send"
  using assms
  apply (simp add: Reopen_def os_defs spawn_def Let_def completion_step_def CompressFile_def io_Copy_def
      gzip_Close_def gzip_NewWriter_def set_pc_def contents_def handle_data_def on_disk_def
      nth_append)
  done

theorem compression_round_trip_witness:
  "Compress (cf (ex_writer ''lock'' True (Some [])))
   \<and> faults ((ex_world True [])\<lparr>inodes := (\<lambda>i. [])(0 := [0x68, 0x65, 0x6c, 0x6c, 0x6f, 0x2d, 0x6c, 0x6f, 0x67, 0x0a])\<rparr>) = []
   \<and> (\<forall>x. drop 2 (gzip ex_externs x) = x)
   \<and> map_option (drop 2)
        (contents
          (snd (completion_step ex_externs 0
                 (fst (snd (Reopen ''r1'' (ex_writer ''lock'' True (Some []))
                   ((ex_world True [])\<lparr>inodes := (\<lambda>i. [])(0 := [0x68, 0x65, 0x6c, 0x6c, 0x6f, 0x2d, 0x6c, 0x6f, 0x67, 0x0a])\<rparr>))))
                 (snd (snd (Reopen ''r1'' (ex_writer ''lock'' True (Some []))
                   ((ex_world True [])\<lparr>inodes := (\<lambda>i. [])(0 := [0x68, 0x65, 0x6c, 0x6c, 0x6f, 0x2d, 0x6c, 0x6f, 0x67, 0x0a])\<rparr>))))))
          ''r1'')
       = Some [0x68, 0x65, 0x6c, 0x6c, 0x6f, 0x2d, 0x6c, 0x6f, 0x67, 0x0a]
   \<and> \<not> on_disk
          (snd (completion_step ex_externs 0
                 (fst (snd (Reopen ''r1'' (ex_writer ''lock'' True (Some []))
                   ((ex_world True [])\<lparr>inodes := (\<lambda>i. [])(0 := [0x68, 0x65, 0x6c, 0x6c, 0x6f, 0x2d, 0x6c, 0x6f, 0x67, 0x0a])\<rparr>))))
                 (snd (snd (Reopen ''r1'' (ex_writer ''lock'' True (Some []))
                   ((ex_world True [])\<lparr>inodes := (\<lambda>i. [])(0 := [0x68, 0x65, 0x6c, 0x6c, 0x6f, 0x2d, 0x6c, 0x6f, 0x67, 0x0a])\<rparr>))))))
          ''r1.tmp''"
proof -
  let ?w = "ex_writer ''lock'' True (Some [])"
  let ?d = "[0x68, 0x65, 0x6c, 0x6c, 0x6f, 0x2d, 0x6c, 0x6f, 0x67, 0x0a] :: bytes"
  let ?wld = "(ex_world True [])\<lparr>inodes := (\<lambda>i. [])(0 := ?d)\<rparr>"
  let ?h = "\<lparr>ino = 0, offset = 0, is_open = True\<rparr>"
  have h1: "Compress (cf ?w)" by (simp add: ex_writer_def ex_config_def)
  have h2: "faults ?wld = []" by (simp add: ex_world_def)
  have h3: "fds ?wld (file_fd ?w) = Some ?h" by (simp add: ex_world_def ex_writer_def)
  have h4: "is_open ?h" by simp
  have h5: "names ?wld (absPath ?w) = Some (ino ?h)" by (simp add: ex_world_def ex_writer_def)
  have h6: "ino ?h < next_ino ?wld" by (simp add: ex_world_def)
  have h7: "file_fd ?w < next_fd ?wld" by (simp add: ex_world_def ex_writer_def)
  have h8: "drop 2 (gzip ex_externs x) = x" for x by (simp add: ex_externs_def)
  have g: "gos ?wld = []" by (simp add: ex_world_def)
  have d: "handle_data ?wld (file_fd ?w) = ?d" by (simp add: handle_data_def ex_world_def ex_writer_def)
  from compression_round_trip [OF h1 h2 h3 h4 h5 h6 h7 h8, of "''r1''"]
  obtain w1 wld1 w2 wld2 where
    "Reopen ''r1'' ?w ?wld = (None, w1, wld1)"
    "completion_step ex_externs (length (gos ?wld)) w1 wld1 = (w2, wld2)"
    "map_option (drop 2) (contents wld2 ''r1'') = Some (handle_data ?wld (file_fd ?w))"
    "\<not> on_disk wld2 (''r1'' @ ''.tmp'')"
    by blast
  with h1 h2 h8 g d show ?thesis by simp
qed

section \<open>The buffered writer\<close>

lemma BufferWriter_Write_inv:
  assumes "buffer_inv w wld"
  shows "\<exists>w1 wld1. BufferWriter_Write b w wld = (Returns (length b, None), w1, wld1)
           \<and> buffer_inv w1 wld1 \<and> file_fd w1 = file_fd w
           \<and> handle_data wld1 (file_fd w) @ buf w1 = handle_data wld (file_fd w) @ buf w @ b"
proof -
  from assms have o: "handle_open wld (file_fd w)" and f: "\<forall>x\<in>set (take 1 (faults wld)). x = Succeed"
    by (simp_all add: buffer_inv_def)
  note ok = file_Write_ok [OF o f, of "buf w @ b"]
  show ?thesis
    using assms ok by (simp add: BufferWriter_Write_def buffer_inv_def Let_def)
qed

lemma run_buffer_writes:
  assumes "buffer_inv w wld"
  shows "\<exists>w1 wld1. run X (map (\<lambda>b. Call_Write b ch) bs) (RW_buffer w, wld) = (RW_buffer w1, wld1)
           \<and> buffer_inv w1 wld1 \<and> file_fd w1 = file_fd w
           \<and> handle_data wld1 (file_fd w) @ buf w1 = handle_data wld (file_fd w) @ buf w @ concat bs"
  using assms
proof (induction bs arbitrary: w wld)
  case Nil
  then show ?case by simp
next
  case (Cons b bs)
  from BufferWriter_Write_inv [OF Cons.prems, of b] obtain w1 wld1 where
    s: "BufferWriter_Write b w wld = (Returns (length b, None), w1, wld1)"
    and i: "buffer_inv w1 wld1" and f: "file_fd w1 = file_fd w"
    and d: "handle_data wld1 (file_fd w) @ buf w1 = handle_data wld (file_fd w) @ buf w @ b" by blast
  from Cons.IH [OF i] obtain w2 wld2 where
    r: "run X (map (\<lambda>b. Call_Write b ch) bs) (RW_buffer w1, wld1) = (RW_buffer w2, wld2)"
    and i2: "buffer_inv w2 wld2" and f2: "file_fd w2 = file_fd w1"
    and d2: "handle_data wld2 (file_fd w1) @ buf w2 = handle_data wld1 (file_fd w1) @ buf w1 @ concat bs"
    by blast
  have "run X (map (\<lambda>b. Call_Write b ch) (b # bs)) (RW_buffer w, wld) = (RW_buffer w2, wld2)"
    using s r by (simp add: step_def step_buffer_def)
  moreover have "handle_data wld2 (file_fd w) @ buf w2 = handle_data wld (file_fd w) @ buf w @ concat (b # bs)"
    using d d2 f by (metis append.assoc concat.simps(2))
  ultimately show ?case using i2 f f2 by simp
qed

lemma BufferWriter_Close_inv:
  assumes "buffer_inv w wld"
  shows "handle_data (snd (snd (BufferWriter_Close w wld))) (file_fd w) = handle_data wld (file_fd w) @ buf w"
    and "\<not> handle_open (snd (snd (BufferWriter_Close w wld))) (file_fd w)"
    and "fst (BufferWriter_Close w wld) = None"
proof -
  from assms have o: "handle_open wld (file_fd w)" and f: "\<forall>x\<in>set (take 1 (faults wld)). x = Succeed"
    by (simp_all add: buffer_inv_def)
  note ok = file_Write_ok [OF o f, of "buf w"]
  note c = file_Close_ok [OF ok(3)]
  show "handle_data (snd (snd (BufferWriter_Close w wld))) (file_fd w) = handle_data wld (file_fd w) @ buf w"
    and "\<not> handle_open (snd (snd (BufferWriter_Close w wld))) (file_fd w)"
    and "fst (BufferWriter_Close w wld) = None"
    using ok c by (simp_all add: BufferWriter_Close_def case_prod_beta)
qed

lemma NewWriterFromConfig_buffer:
  assumes "NewWriterFromConfig X c wld0 = (Inr (RW_buffer w), wld)" and "faults wld = []"
  shows "buffer_inv w wld \<and> buf w = []"
  using assms
  by (auto simp: NewWriterFromConfig_def Let_def buffer_inv_def os_OpenFile_def os_MkdirAll_def next_fault_def
      handle_open_def Writer.defs BufferWriter.defs
      split: if_splits prod.splits option.splits sum.splits list.splits outcome.splits)

text \<open>
  C9. Let \<open>NewWriterFromConfig\<close> return a buffered writer, and let no call of the
  operating system fail afterwards. A single caller passes the byte sequences \<open>bs\<close> to
  \<open>Write\<close> one after the other, with no rotation trigger, and then calls \<open>Close\<close>.
  The file then holds what it held at construction followed by the concatenation of
  \<open>bs\<close> in call order, and the handle is closed.
\<close>

theorem buffered_contents_after_Close:
  assumes "NewWriterFromConfig X c wld0 = (Inr (RW_buffer w), wld)"
    and "faults wld = []"
  shows "\<exists>w1 wld1.
           run X (map (\<lambda>b. Call_Write b ch) bs @ [Call_Close il]) (RW_buffer w, wld) = (RW_buffer w1, wld1)
           \<and> file_fd w1 = file_fd w
           \<and> handle_data wld1 (file_fd w) = handle_data wld (file_fd w) @ concat bs
           \<and> \<not> handle_open wld1 (file_fd w)"
proof -
  from NewWriterFromConfig_buffer [OF assms] have i: "buffer_inv w wld" and e: "buf w = []" by simp_all
  from run_buffer_writes [OF i, of X ch bs] obtain w1 wld1 where
    r: "run X (map (\<lambda>b. Call_Write b ch) bs) (RW_buffer w, wld) = (RW_buffer w1, wld1)"
    and i1: "buffer_inv w1 wld1" and f: "file_fd w1 = file_fd w"
    and d: "handle_data wld1 (file_fd w) @ buf w1 = handle_data wld (file_fd w) @ buf w @ concat bs"
    by blast
  note c = BufferWriter_Close_inv [OF i1]
  have "run X (map (\<lambda>b. Call_Write b ch) bs @ [Call_Close il]) (RW_buffer w, wld)
          = (RW_buffer w1, snd (snd (BufferWriter_Close w1 wld1)))"
    using r by (simp add: run_append step_def step_buffer_def BufferWriter_Close_def case_prod_beta)
  with c d e f show ?thesis by simp
qed

theorem buffered_contents_after_Close_witness:
  "NewWriterFromConfig ex_externs (ex_config ''buffer'' False) (world0\<lparr>faults := []\<rparr>)
     = (Inr (RW_buffer ex_buffer), ex_world True [])
   \<and> faults (ex_world True []) = []
   \<and> handle_data (ex_world True []) (file_fd ex_buffer) = []
   \<and> handle_data
        (snd (run ex_externs (map (\<lambda>b. Call_Write b False) [[1, 2], [3, 4, 5], [6]] @ [Call_Close ([], [], [])])
               (RW_buffer ex_buffer, ex_world True [])))
        (file_fd ex_buffer)
       = [1, 2, 3, 4, 5, 6]
   \<and> \<not> handle_open
        (snd (run ex_externs (map (\<lambda>b. Call_Write b False) [[1, 2], [3, 4, 5], [6]] @ [Call_Close ([], [], [])])
               (RW_buffer ex_buffer, ex_world True [])))
        (file_fd ex_buffer)"
proof -
  have h1: "NewWriterFromConfig ex_externs (ex_config ''buffer'' False) (world0\<lparr>faults := []\<rparr>)
              = (Inr (RW_buffer ex_buffer), ex_world True [])"
    using ex_new_buffer by (simp add: ex_new_def)
  have h2: "faults (ex_world True []) = []" by (simp add: ex_world_def)
  have d: "handle_data (ex_world True []) (file_fd ex_buffer) = []"
    by (simp add: handle_data_def ex_defs)
  from buffered_contents_after_Close [OF h1 h2, where ch = False and bs = "[[1, 2], [3, 4, 5], [6]]"
      and il = "([], [], [])"]
  obtain w1 wld1 where
    "run ex_externs (map (\<lambda>b. Call_Write b False) [[1, 2], [3, 4, 5], [6]] @ [Call_Close ([], [], [])])
       (RW_buffer ex_buffer, ex_world True []) = (RW_buffer w1, wld1)"
    "handle_data wld1 (file_fd ex_buffer)
       = handle_data (ex_world True []) (file_fd ex_buffer) @ concat [[1, 2], [3, 4, 5], [6]]"
    "\<not> handle_open wld1 (file_fd ex_buffer)"
    by blast
  with h1 h2 d show ?thesis by simp
qed

end
